theory Spec2Isabelle
  imports Main "HOL-Library.Char_ord" "HOL-Library.List_Lexorder"
begin

section \<open>Values of the runtime\<close>

text \<open>
  The worker \<^verbatim>\<open>src/workers/gallery-search/index.js\<close> handles parsed JSON bodies, so
  its inputs are dynamically typed. A value is one of the JSON shapes, plus
  \<^verbatim>\<open>undefined\<close> for a property that is absent. \<open>JNum n\<close> is the number whose value is
  the integer \<open>n\<close>: a fraction is outside this model, and so is an integer that is not
  a number of the runtime (every integer of magnitude up to \<open>2 ^ 53\<close> is one). A
  string is a list of code units, here the code units below 256. An object is the list
  of its own properties, every key at most once.
\<close>

datatype jsval =
    JUndefined
  | JNull
  | JBool bool
  | JNum int
  | JStr string
  | JArr "jsval list"
  | JObj "(string \<times> jsval) list"

text \<open>What the runtime throws: a \<^verbatim>\<open>TypeError\<close> raised by the handler's own code (its
  message is the engine's), or the error of a failed call to a binding, with its message.\<close>

datatype thrown = TypeError | ServiceError string

text \<open>Truthiness, as \<^verbatim>\<open>!x\<close>, \<^verbatim>\<open>x || y\<close> and \<^verbatim>\<open>filter(Boolean)\<close> use it.\<close>

fun truthy :: "jsval \<Rightarrow> bool" where
  "truthy JUndefined = False"
| "truthy JNull = False"
| "truthy (JBool b) = b"
| "truthy (JNum n) = (n \<noteq> 0)"
| "truthy (JStr s) = (s \<noteq> [])"
| "truthy (JArr xs) = True"
| "truthy (JObj kvs) = True"

text \<open>\<^verbatim>\<open>x || ''\<close>\<close>

definition or_empty :: "jsval \<Rightarrow> jsval" where
  "or_empty v = (if truthy v then v else JStr [])"

fun isArray :: "jsval \<Rightarrow> bool" where
  "isArray (JArr xs) = True"
| "isArray v = False"

fun is_string :: "jsval \<Rightarrow> bool" where
  "is_string (JStr s) = True"
| "is_string v = False"

text \<open>
  Reading the properties of a value, as \<^verbatim>\<open>v.name\<close> and the destructuring
  \<^verbatim>\<open>const { a, b } = v\<close> do: a \<^verbatim>\<open>TypeError\<close> on \<^verbatim>\<open>null\<close> and
  \<^verbatim>\<open>undefined\<close> (\<open>None\<close> here), the own properties of an object, and
  \<^verbatim>\<open>undefined\<close> for every name on any other value (the handlers read only
  \<^verbatim>\<open>query\<close>, \<^verbatim>\<open>limit\<close>, \<^verbatim>\<open>images\<close>, \<^verbatim>\<open>id\<close>, \<^verbatim>\<open>tags\<close>,
  \<^verbatim>\<open>alt\<close>, \<^verbatim>\<open>caption\<close>, \<^verbatim>\<open>project\<close>, \<^verbatim>\<open>src\<close> and \<^verbatim>\<open>thumb\<close>,
  none of which is a built-in property of a string, an array, a number or a boolean).
\<close>

definition own_prop :: "(string \<times> jsval) list \<Rightarrow> string \<Rightarrow> jsval" where
  "own_prop kvs k = (case map_of kvs k of None \<Rightarrow> JUndefined | Some v \<Rightarrow> v)"

fun props :: "jsval \<Rightarrow> (string \<Rightarrow> jsval) option" where
  "props JUndefined = None"
| "props JNull = None"
| "props (JObj kvs) = Some (own_prop kvs)"
| "props v = Some (\<lambda>k. JUndefined)"

text \<open>\<^verbatim>\<open>xs[i]\<close> on an array: \<^verbatim>\<open>undefined\<close> out of range.\<close>

definition js_index :: "jsval list \<Rightarrow> nat \<Rightarrow> jsval" where
  "js_index xs i = (if i < length xs then xs ! i else JUndefined)"

section \<open>Strings\<close>

text \<open>Joining strings with a separator.\<close>

fun join_strings :: "string \<Rightarrow> string list \<Rightarrow> string" where
  "join_strings sep [] = []"
| "join_strings sep [x] = x"
| "join_strings sep (x # y # ys) = x @ sep @ join_strings sep (y # ys)"

text \<open>The decimal digits of a natural number, and of an integer.\<close>

fun digits :: "nat \<Rightarrow> string" where
  "digits n = (if n < 10 then [''0123456789'' ! n]
               else digits (n div 10) @ [''0123456789'' ! (n mod 10)])"

definition show_int :: "int \<Rightarrow> string" where
  "show_int n = (if n < 0 then CHR ''-'' # digits (nat (- n)) else digits (nat n))"

text \<open>
  The text of a number: its decimal digits, for an integer of magnitude up to \<open>2 ^ 53\<close>.
  The runtime prints a larger number in the shortest form that reads back as the same
  number, which is not computed here: its text is left open, a string of which nothing
  is known.
\<close>

definition Number_text :: "int \<Rightarrow> string" where
  "Number_text n = (if - (2 ^ 53) \<le> n \<and> n \<le> 2 ^ 53 then show_int n else undefined)"

text \<open>
  \<^verbatim>\<open>String(v)\<close>, as \<^verbatim>\<open>Array.prototype.join\<close> and the default order of
  \<^verbatim>\<open>Array.prototype.sort\<close> apply it. An array prints as its elements joined with
  commas; \<^verbatim>\<open>join\<close> prints a \<^verbatim>\<open>null\<close> or \<^verbatim>\<open>undefined\<close> element as nothing and
  every other element as its string. An object of a JSON body prints as
  \<^verbatim>\<open>[object Object]\<close> through the method \<^verbatim>\<open>toString\<close> that it inherits; when it has
  a property \<^verbatim>\<open>toString\<close> of its own, that is a JSON value and no function, the value
  that \<^verbatim>\<open>valueOf\<close> gives is no primitive either, and the conversion throws a
  \<^verbatim>\<open>TypeError\<close>. \<open>join_elements\<close> is the strings of the elements of an array, for
  \<^verbatim>\<open>join\<close>; the first element that throws ends it.
\<close>

fun ToString :: "jsval \<Rightarrow> thrown + string"
  and join_elements :: "jsval list \<Rightarrow> thrown + string list" where
  "ToString JUndefined = Inr ''undefined''"
| "ToString JNull = Inr ''null''"
| "ToString (JBool b) = Inr (if b then ''true'' else ''false'')"
| "ToString (JNum n) = Inr (Number_text n)"
| "ToString (JStr s) = Inr s"
| "ToString (JArr xs) =
     (case join_elements xs of Inl e \<Rightarrow> Inl e | Inr ss \<Rightarrow> Inr (join_strings '','' ss))"
| "ToString (JObj kvs) =
     (if ''toString'' \<in> set (map fst kvs) then Inl TypeError else Inr ''[object Object]'')"
| "join_elements [] = Inr []"
| "join_elements (v # vs) =
     (case (case v of JUndefined \<Rightarrow> Inr [] | JNull \<Rightarrow> Inr [] | _ \<Rightarrow> ToString v) of
        Inl e \<Rightarrow> Inl e
      | Inr s \<Rightarrow> (case join_elements vs of Inl e \<Rightarrow> Inl e | Inr ss \<Rightarrow> Inr (s # ss)))"

text \<open>\<^verbatim>\<open>xs.join(sep)\<close>\<close>

definition js_join :: "string \<Rightarrow> jsval list \<Rightarrow> thrown + string" where
  "js_join sep xs =
     (case join_elements xs of Inl e \<Rightarrow> Inl e | Inr ss \<Rightarrow> Inr (join_strings sep ss))"

text \<open>\<^verbatim>\<open>s.split(',')\<close>: the segments between the commas; the empty string has one
  segment, the empty one.\<close>

fun split_comma :: "string \<Rightarrow> string list" where
  "split_comma [] = [[]]"
| "split_comma (c # cs) =
     (if c = CHR '','' then [] # split_comma cs
      else (case split_comma cs of [] \<Rightarrow> [[c]] | w # ws \<Rightarrow> (c # w) # ws))"

text \<open>White space, for \<^verbatim>\<open>trim\<close>: tab, line feed, vertical tab, form feed, carriage
  return, space and the no-break space.\<close>

definition is_space :: "char \<Rightarrow> bool" where
  "is_space c = (of_char c \<in> {9, 10, 11, 12, 13, 32, 160 :: nat})"

definition trim :: "string \<Rightarrow> string" where
  "trim s = rev (dropWhile is_space (rev (dropWhile is_space s)))"

section \<open>The bindings and what a request does with them\<close>

text \<open>
  The embedding model (\<^verbatim>\<open>env.AI\<close>) and the vector index (\<^verbatim>\<open>env.GALLERY_INDEX\<close>)
  are services outside the repository. A call to one of them is an event; the events of
  a run, in order, are its trace. A service answers a call as it likes: its reply may
  depend on the arguments and on every event before the call. \<open>Inl m\<close> (for an upsert,
  \<open>Some m\<close>) is a call that throws an error with message \<open>m\<close>.
\<close>

record vector_record =
  vr_id :: jsval
  vr_values :: jsval
  vr_metadata :: jsval

record index_match =
  m_id :: jsval
  m_score :: jsval
  m_metadata :: jsval

datatype event =
    AI_run_call "string list" "string + jsval list"
  | Upsert_call "vector_record list" "string option"
  | Query_call jsval "int option" "string + index_match list"

record env =
  AI_run :: "event list \<Rightarrow> string list \<Rightarrow> string + jsval list"
  GALLERY_INDEX_upsert :: "event list \<Rightarrow> vector_record list \<Rightarrow> string option"
  GALLERY_INDEX_query :: "event list \<Rightarrow> jsval \<Rightarrow> int option \<Rightarrow> string + index_match list"

text \<open>
  A response is its status and its body. \<open>JsonBody v\<close> is the value \<open>v\<close> as
  \<^verbatim>\<open>jsonResponse\<close> receives it, before \<^verbatim>\<open>JSON.stringify\<close> writes it (and leaves out
  the properties that are \<^verbatim>\<open>undefined\<close>). \<open>ErrorBody e\<close> is the JSON object
  \<^verbatim>\<open>{ error: err.message }\<close> that the \<^verbatim>\<open>catch\<close> of \<^verbatim>\<open>fetch\<close> builds from what was
  thrown.
\<close>

datatype payload = JsonBody jsval | ErrorBody thrown | TextBody string | NullBody

record response =
  status :: nat
  body :: payload

definition jsonResponse :: "jsval \<Rightarrow> nat \<Rightarrow> response" where
  "jsonResponse data st = \<lparr>status = st, body = JsonBody data\<rparr>"

text \<open>A handler either throws or returns a response, and extends the trace.\<close>

type_synonym 'a outcome = "(thrown + 'a) \<times> event list"

text \<open>\<^verbatim>\<open>xs.map(f)\<close> where \<open>f\<close> may throw: the first throw ends the map.\<close>

fun map_throw :: "('a \<Rightarrow> thrown + 'b) \<Rightarrow> 'a list \<Rightarrow> thrown + 'b list" where
  "map_throw f [] = Inr []"
| "map_throw f (x # xs) =
     (case f x of Inl e \<Rightarrow> Inl e
      | Inr y \<Rightarrow> (case map_throw f xs of Inl e \<Rightarrow> Inl e | Inr ys \<Rightarrow> Inr (y # ys)))"

section \<open>Indexing\<close>

text \<open>
  \<^verbatim>\<open>handleIndex\<close> (lines 167 to 172) and \<^verbatim>\<open>handleIndexBatch\<close> (lines 228 to 233)
  build the text to embed with the same expression:
  \<^verbatim>\<open>[caption || '', alt || '', Array.isArray(tags) ? tags.join(' ') : (tags || ''),
  project || ''].filter(Boolean).join('. ')\<close>.
  Each of the two calls of \<^verbatim>\<open>join\<close> throws when it meets a value that has no string.
\<close>

definition tags_component :: "jsval \<Rightarrow> thrown + jsval" where
  "tags_component tags =
     (case tags of
        JArr xs \<Rightarrow> (case js_join '' '' xs of Inl e \<Rightarrow> Inl e | Inr s \<Rightarrow> Inr (JStr s))
      | _ \<Rightarrow> Inr (or_empty tags))"

definition textForEmbedding :: "jsval \<Rightarrow> jsval \<Rightarrow> jsval \<Rightarrow> jsval \<Rightarrow> thrown + string" where
  "textForEmbedding caption alt tags project =
     (case tags_component tags of
        Inl e \<Rightarrow> Inl e
      | Inr tagtext \<Rightarrow>
          js_join ''. ''
            (filter truthy [or_empty caption, or_empty alt, tagtext, or_empty project]))"

text \<open>
  The \<^verbatim>\<open>tags\<close> of the metadata (lines 187 and 245):
  \<^verbatim>\<open>Array.isArray(tags) ? tags : (tags || '').split(',').map(t => t.trim())\<close>.
  A truthy value that is neither an array nor a string has no \<^verbatim>\<open>split\<close> method, and
  the call throws.
\<close>

definition metadata_tags :: "jsval \<Rightarrow> thrown + jsval" where
  "metadata_tags tags =
     (case tags of
        JArr xs \<Rightarrow> Inr (JArr xs)
      | _ \<Rightarrow> (case or_empty tags of
                JStr s \<Rightarrow> Inr (JArr (map (\<lambda>t. JStr (trim t)) (split_comma s)))
              | _ \<Rightarrow> Inl TypeError))"

text \<open>The metadata object (lines 186 to 193 and 244 to 251), from the properties of the
  input.\<close>

definition prepare_metadata :: "(string \<Rightarrow> jsval) \<Rightarrow> thrown + jsval" where
  "prepare_metadata img =
     (case metadata_tags (img ''tags'') of
        Inl e \<Rightarrow> Inl e
      | Inr tags \<Rightarrow>
          Inr (JObj [(''tags'', tags),
                     (''alt'', or_empty (img ''alt'')),
                     (''caption'', or_empty (img ''caption'')),
                     (''project'', or_empty (img ''project'')),
                     (''src'', or_empty (img ''src'')),
                     (''thumb'', or_empty (img ''thumb''))]))"

definition missing_id :: response where
  \<open>missing_id = jsonResponse (JObj [(''error'', JStr ''Missing "id" field'')]) 400\<close>

definition no_text :: response where
  \<open>no_text =
     jsonResponse
       (JObj [(''error'', JStr ''No text content to embed (provide caption, alt, or tags)'')])
       400\<close>

text \<open>\<^verbatim>\<open>handleIndex\<close>, on the parsed body of the request.\<close>

definition handleIndex :: "env \<Rightarrow> jsval \<Rightarrow> event list \<Rightarrow> response outcome" where
  "handleIndex e reqbody tr =
     (case props reqbody of
        None \<Rightarrow> (Inl TypeError, tr)
      | Some b \<Rightarrow>
          if \<not> truthy (b ''id'') then (Inr missing_id, tr)
          else
            (case textForEmbedding (b ''caption'') (b ''alt'') (b ''tags'') (b ''project'') of
               Inl x \<Rightarrow> (Inl x, tr)
             | Inr text \<Rightarrow>
               if text = [] then (Inr no_text, tr)
               else
                 (case AI_run e tr [text] of
                    Inl m \<Rightarrow> (Inl (ServiceError m), tr @ [AI_run_call [text] (Inl m)])
                  | Inr data \<Rightarrow>
                      let tr1 = tr @ [AI_run_call [text] (Inr data)];
                          vector = js_index data 0
                      in (case prepare_metadata b of
                            Inl x \<Rightarrow> (Inl x, tr1)
                          | Inr metadata \<Rightarrow>
                              let recs = [\<lparr>vr_id = b ''id'', vr_values = vector,
                                           vr_metadata = metadata\<rparr>]
                              in (case GALLERY_INDEX_upsert e tr1 recs of
                                    Some m \<Rightarrow>
                                      (Inl (ServiceError m), tr1 @ [Upsert_call recs (Some m)])
                                  | None \<Rightarrow>
                                      (Inr (jsonResponse
                                              (JObj [(''success'', JBool True),
                                                     (''id'', b ''id'')]) 200),
                                       tr1 @ [Upsert_call recs None]))))))"

text \<open>The three maps over a batch of \<^verbatim>\<open>handleIndexBatch\<close>: the texts (lines 227 to
  234), the vectors (lines 241 to 252) and the results (line 256).\<close>

definition item_text :: "jsval \<Rightarrow> thrown + string" where
  "item_text img =
     (case props img of
        None \<Rightarrow> Inl TypeError
      | Some f \<Rightarrow> textForEmbedding (f ''caption'') (f ''alt'') (f ''tags'') (f ''project''))"

definition item_vector :: "jsval list \<Rightarrow> jsval \<times> nat \<Rightarrow> thrown + vector_record" where
  "item_vector data p =
     (case props (fst p) of
        None \<Rightarrow> Inl TypeError
      | Some f \<Rightarrow>
          (case prepare_metadata f of
             Inl e \<Rightarrow> Inl e
           | Inr metadata \<Rightarrow>
               Inr \<lparr>vr_id = f ''id'', vr_values = js_index data (snd p),
                    vr_metadata = metadata\<rparr>))"

definition item_result :: "jsval \<Rightarrow> thrown + jsval" where
  "item_result img =
     (case props img of
        None \<Rightarrow> Inl TypeError
      | Some f \<Rightarrow> Inr (JObj [(''id'', f ''id''), (''success'', JBool True)]))"

definition batchSize :: nat where
  "batchSize = 10"

text \<open>One turn of the loop of \<^verbatim>\<open>handleIndexBatch\<close> (lines 226 to 256) on a batch: the
  result entries it pushes, or what it throws.\<close>

definition process_batch :: "env \<Rightarrow> jsval list \<Rightarrow> event list \<Rightarrow> jsval list outcome" where
  "process_batch e batch tr =
     (case map_throw item_text batch of
        Inl x \<Rightarrow> (Inl x, tr)
      | Inr texts \<Rightarrow>
          (case AI_run e tr texts of
             Inl m \<Rightarrow> (Inl (ServiceError m), tr @ [AI_run_call texts (Inl m)])
           | Inr data \<Rightarrow>
               let tr1 = tr @ [AI_run_call texts (Inr data)]
               in (case map_throw (item_vector data) (zip batch [0 ..< length batch]) of
                     Inl x \<Rightarrow> (Inl x, tr1)
                   | Inr vectors \<Rightarrow>
                       (case GALLERY_INDEX_upsert e tr1 vectors of
                          Some m \<Rightarrow>
                            (Inl (ServiceError m), tr1 @ [Upsert_call vectors (Some m)])
                        | None \<Rightarrow>
                            (case map_throw item_result batch of
                               Inl x \<Rightarrow> (Inl x, tr1 @ [Upsert_call vectors None])
                             | Inr rs \<Rightarrow> (Inr rs, tr1 @ [Upsert_call vectors None]))))))"

text \<open>The loop (lines 223 to 257):
  \<^verbatim>\<open>for (let i = 0; i < images.length; i += batchSize)\<close> on
  \<^verbatim>\<open>images.slice(i, i + batchSize)\<close>.\<close>

function indexBatch_loop ::
  "env \<Rightarrow> jsval list \<Rightarrow> nat \<Rightarrow> jsval list \<Rightarrow> event list \<Rightarrow> jsval list outcome" where
  "indexBatch_loop e images i results tr =
     (if i < length images then
        (case process_batch e (take batchSize (drop i images)) tr of
           (Inl x, tr') \<Rightarrow> (Inl x, tr')
         | (Inr rs, tr') \<Rightarrow> indexBatch_loop e images (i + batchSize) (results @ rs) tr')
      else (Inr results, tr))"
  by pat_completeness auto
termination
  by (relation "measure (\<lambda>(e, images, i, results, tr). length images - i)")
     (auto simp: batchSize_def)

definition empty_batch :: response where
  \<open>empty_batch = jsonResponse (JObj [(''error'', JStr ''Missing or empty "images" array'')]) 400\<close>

text \<open>\<^verbatim>\<open>handleIndexBatch\<close>, on the parsed body of the request.\<close>

definition handleIndexBatch :: "env \<Rightarrow> jsval \<Rightarrow> event list \<Rightarrow> response outcome" where
  "handleIndexBatch e reqbody tr =
     (case props reqbody of
        None \<Rightarrow> (Inl TypeError, tr)
      | Some b \<Rightarrow>
          (case b ''images'' of
             JArr images \<Rightarrow>
               if images = [] then (Inr empty_batch, tr)
               else
                 (case indexBatch_loop e images 0 [] tr of
                    (Inl x, tr') \<Rightarrow> (Inl x, tr')
                  | (Inr results, tr') \<Rightarrow>
                      (Inr (jsonResponse
                              (JObj [(''success'', JBool True),
                                     (''indexed'', JNum (int (length results))),
                                     (''results'', JArr results)]) 200),
                       tr'))
           | _ \<Rightarrow> (Inr empty_batch, tr)))"

section \<open>Search\<close>

text \<open>
  \<^verbatim>\<open>Math.min(limit, 100)\<close> turns \<^verbatim>\<open>limit\<close> into a number first. \<open>None\<close> is the
  outcome for a value that is not a number, \<^verbatim>\<open>null\<close> or a boolean: the result is then
  \<^verbatim>\<open>NaN\<close> or a number that this model does not compute (a string is parsed).
\<close>

fun ToNumber :: "jsval \<Rightarrow> int option" where
  "ToNumber JNull = Some 0"
| "ToNumber (JBool b) = Some (if b then 1 else 0)"
| "ToNumber (JNum n) = Some n"
| "ToNumber v = None"

definition Math_min :: "jsval \<Rightarrow> int \<Rightarrow> int option" where
  "Math_min v m = map_option (\<lambda>n. min n m) (ToNumber v)"

definition invalid_query :: response where
  \<open>invalid_query =
     jsonResponse (JObj [(''error'', JStr ''Missing or invalid "query" field'')]) 400\<close>

text \<open>The result entry of a match (lines 98 to 102).\<close>

definition format_match :: "index_match \<Rightarrow> jsval" where
  "format_match m =
     JObj [(''id'', m_id m),
           (''score'', m_score m),
           (''metadata'', if truthy (m_metadata m) then m_metadata m else JObj [])]"

text \<open>\<^verbatim>\<open>handleSearch\<close>, on the parsed body of the request; \<^verbatim>\<open>limit\<close> is 20 when the
  body has none.\<close>

definition handleSearch :: "env \<Rightarrow> jsval \<Rightarrow> event list \<Rightarrow> response outcome" where
  "handleSearch e reqbody tr =
     (case props reqbody of
        None \<Rightarrow> (Inl TypeError, tr)
      | Some b \<Rightarrow>
          let query = b ''query'';
              limit = (if b ''limit'' = JUndefined then JNum 20 else b ''limit'')
          in (case query of
                JStr q \<Rightarrow>
                  if \<not> truthy query then (Inr invalid_query, tr)
                  else
                    (case AI_run e tr [q] of
                       Inl m \<Rightarrow> (Inl (ServiceError m), tr @ [AI_run_call [q] (Inl m)])
                     | Inr data \<Rightarrow>
                         let tr1 = tr @ [AI_run_call [q] (Inr data)];
                             queryVector = js_index data 0;
                             topK = Math_min limit 100
                         in (case GALLERY_INDEX_query e tr1 queryVector topK of
                               Inl m \<Rightarrow>
                                 (Inl (ServiceError m),
                                  tr1 @ [Query_call queryVector topK (Inl m)])
                             | Inr matches \<Rightarrow>
                                 (Inr (jsonResponse (JArr (map format_match matches)) 200),
                                  tr1 @ [Query_call queryVector topK (Inr matches)])))
              | _ \<Rightarrow> (Inr invalid_query, tr)))"

section \<open>Catalog views\<close>

definition dummyVector :: jsval where
  "dummyVector = JArr (replicate 768 (JNum 0))"

text \<open>
  A \<^verbatim>\<open>Set\<close> keeps its elements in the order of their first insertion. Two primitive
  values are the same element when they are equal; an array or an object is the same
  element only as itself, and every value of a query result is an object of its own.
\<close>

fun same_value_zero :: "jsval \<Rightarrow> jsval \<Rightarrow> bool" where
  "same_value_zero (JArr xs) w = False"
| "same_value_zero (JObj kvs) w = False"
| "same_value_zero v w = (v = w)"

definition set_add :: "jsval list \<Rightarrow> jsval \<Rightarrow> jsval list" where
  "set_add s v = (if \<exists>x \<in> set s. same_value_zero x v then s else s @ [v])"

text \<open>
  \<^verbatim>\<open>xs.sort()\<close> with no comparator: \<^verbatim>\<open>undefined\<close> goes last, every other element
  is ordered by the code units of its string, and elements that compare equal keep
  their order. With two elements or more to compare, every one of them is turned into
  its string, and the sort throws when one of them has none.
\<close>

definition js_sort :: "jsval list \<Rightarrow> thrown + jsval list" where
  "js_sort xs =
     (let defined = filter (\<lambda>v. v \<noteq> JUndefined) xs;
          rest = filter (\<lambda>v. v = JUndefined) xs
      in if length defined < 2 then Inr (defined @ rest)
         else
           (case map_throw ToString defined of
              Inl e \<Rightarrow> Inl e
            | Inr keys \<Rightarrow> Inr (map snd (sort_key fst (zip keys defined)) @ rest)))"

text \<open>The body of the loop of \<^verbatim>\<open>handleGetTags\<close> (lines 123 to 128) on one match:
  \<^verbatim>\<open>match.metadata?.tags\<close> is \<^verbatim>\<open>undefined\<close> when there is no metadata.\<close>

definition match_tags :: "index_match \<Rightarrow> jsval" where
  "match_tags m = (case props (m_metadata m) of None \<Rightarrow> JUndefined | Some f \<Rightarrow> f ''tags'')"

definition collect_tags :: "jsval list \<Rightarrow> index_match \<Rightarrow> jsval list" where
  "collect_tags tagSet m =
     (case match_tags m of
        JArr ts \<Rightarrow> foldl set_add tagSet ts
      | JStr s \<Rightarrow>
          foldl set_add tagSet (filter truthy (map (\<lambda>t. JStr (trim t)) (split_comma s)))
      | _ \<Rightarrow> tagSet)"

definition handleGetTags :: "env \<Rightarrow> event list \<Rightarrow> response outcome" where
  "handleGetTags e tr =
     (case GALLERY_INDEX_query e tr dummyVector (Some 10000) of
        Inl m \<Rightarrow> (Inl (ServiceError m), tr @ [Query_call dummyVector (Some 10000) (Inl m)])
      | Inr matches \<Rightarrow>
          (case js_sort (foldl collect_tags [] matches) of
             Inl x \<Rightarrow> (Inl x, tr @ [Query_call dummyVector (Some 10000) (Inr matches)])
           | Inr sorted_tags \<Rightarrow>
               (Inr (jsonResponse (JArr sorted_tags) 200),
                tr @ [Query_call dummyVector (Some 10000) (Inr matches)])))"

text \<open>
  The object \<^verbatim>\<open>{ id: match.id, ...match.metadata }\<close> of \<^verbatim>\<open>handleGetImages\<close>: the
  spread copies the own properties of an object, the indexed elements of an array or a
  string, and nothing of any other value; a property that exists keeps its place and
  takes the new value. (The order of the keys is the order of writing here.)
\<close>

definition set_prop :: "string \<Rightarrow> jsval \<Rightarrow> (string \<times> jsval) list \<Rightarrow> (string \<times> jsval) list" where
  "set_prop k v kvs =
     (if k \<in> set (map fst kvs) then map (\<lambda>p. if fst p = k then (k, v) else p) kvs
      else kvs @ [(k, v)])"

fun spread_props :: "jsval \<Rightarrow> (string \<times> jsval) list" where
  "spread_props (JObj kvs) = kvs"
| "spread_props (JArr xs) = zip (map digits [0 ..< length xs]) xs"
| "spread_props (JStr s) = zip (map digits [0 ..< length s]) (map (\<lambda>c. JStr [c]) s)"
| "spread_props v = []"

definition image_of :: "index_match \<Rightarrow> jsval" where
  "image_of m =
     JObj (foldl (\<lambda>kvs p. set_prop (fst p) (snd p) kvs) [(''id'', m_id m)]
             (spread_props (m_metadata m)))"

definition handleGetImages :: "env \<Rightarrow> event list \<Rightarrow> response outcome" where
  "handleGetImages e tr =
     (case GALLERY_INDEX_query e tr dummyVector (Some 10000) of
        Inl m \<Rightarrow> (Inl (ServiceError m), tr @ [Query_call dummyVector (Some 10000) (Inl m)])
      | Inr matches \<Rightarrow>
          (Inr (jsonResponse (JArr (map image_of matches)) 200),
           tr @ [Query_call dummyVector (Some 10000) (Inr matches)]))"

section \<open>The entry point\<close>

text \<open>
  A request is its method, the path of its URL and the value its JSON body parses to.
  \<^verbatim>\<open>corsResponse\<close> copies the status and the body of a response and sets headers,
  which a response of this model does not carry.
\<close>

record request =
  req_method :: string
  req_path :: string
  req_json :: jsval

definition corsResponse :: "response \<Rightarrow> response" where
  "corsResponse r = \<lparr>status = status r, body = body r\<rparr>"

text \<open>The \<^verbatim>\<open>try\<close> and \<^verbatim>\<open>catch\<close> of \<^verbatim>\<open>fetch\<close> (lines 34 to 67) around a handler: what
  is thrown becomes a response with status 500.\<close>

definition try_catch :: "response outcome \<Rightarrow> response \<times> event list" where
  "try_catch r =
     (case r of
        (Inr resp, tr) \<Rightarrow> (corsResponse resp, tr)
      | (Inl err, tr) \<Rightarrow> (corsResponse \<lparr>status = 500, body = ErrorBody err\<rparr>, tr))"

definition fetch :: "env \<Rightarrow> request \<Rightarrow> event list \<Rightarrow> response \<times> event list" where
  "fetch e req tr =
     (let path = req_path req; method = req_method req
      in if method = ''OPTIONS'' then (corsResponse \<lparr>status = 204, body = NullBody\<rparr>, tr)
         else if path = ''/search'' \<and> method = ''POST''
           then try_catch (handleSearch e (req_json req) tr)
         else if path = ''/tags'' \<and> method = ''GET''
           then try_catch (handleGetTags e tr)
         else if path = ''/images'' \<and> method = ''GET''
           then try_catch (handleGetImages e tr)
         else if path = ''/index'' \<and> method = ''POST''
           then try_catch (handleIndex e (req_json req) tr)
         else if path = ''/index-batch'' \<and> method = ''POST''
           then try_catch (handleIndexBatch e (req_json req) tr)
         else if path = ''/'' \<or> path = ''/health''
           then (corsResponse
                   (jsonResponse (JObj [(''status'', JStr ''ok''),
                                        (''service'', JStr ''gallery-search'')]) 200), tr)
         else (corsResponse \<lparr>status = 404, body = TextBody ''Not Found''\<rparr>, tr))"

section \<open>Notions of the specification\<close>

text \<open>A list cut into pieces of \<open>n\<close> elements, the last one shorter when the length is not
  a multiple of \<open>n\<close>.\<close>

function chunks :: "nat \<Rightarrow> 'a list \<Rightarrow> 'a list list" where
  "chunks n xs = (if n = 0 \<or> xs = [] then [] else take n xs # chunks n (drop n xs))"
  by pat_completeness auto
termination
  by (relation "measure (\<lambda>(n, xs). length xs)") auto

text \<open>The loop of \<^verbatim>\<open>handleIndexBatch\<close> told over the list of its batches: batch after
  batch, until one throws.\<close>

fun run_batches ::
  "env \<Rightarrow> jsval list list \<Rightarrow> jsval list \<Rightarrow> event list \<Rightarrow> jsval list outcome" where
  "run_batches e [] results tr = (Inr results, tr)"
| "run_batches e (c # cs) results tr =
     (case process_batch e c tr of
        (Inl x, tr') \<Rightarrow> (Inl x, tr')
      | (Inr rs, tr') \<Rightarrow> run_batches e cs (results @ rs) tr')"

text \<open>The \<^verbatim>\<open>id\<close> of an input.\<close>

definition item_id :: "jsval \<Rightarrow> jsval" where
  "item_id img = (case props img of None \<Rightarrow> JUndefined | Some f \<Rightarrow> f ''id'')"

text \<open>
  The calls of a batch run in which nothing fails: for every chunk, in order, one
  embedding call on the texts of the whole chunk that returns some vectors, then one
  upsert call that succeeds, on as many records as the chunk has inputs, the record at
  position \<open>i\<close> with the \<^verbatim>\<open>id\<close> of input \<open>i\<close> and vector \<open>i\<close> of the embedding call.
\<close>

fun chunk_calls :: "jsval list list \<Rightarrow> event list \<Rightarrow> bool" where
  "chunk_calls [] evs = (evs = [])"
| "chunk_calls (c # cs) (AI_run_call texts (Inr data) # Upsert_call recs None # evs) =
     (map Inr texts = map item_text c \<and>
      map vr_id recs = map item_id c \<and>
      map vr_values recs = map (js_index data) [0 ..< length c] \<and>
      chunk_calls cs evs)"
| "chunk_calls (c # cs) evs = False"

text \<open>The calls of a batch in which a service fails with message \<open>m\<close>: the embedding call
  that fails, or the embedding call that succeeds and the upsert call that fails.\<close>

fun failed_calls :: "event list \<Rightarrow> string \<Rightarrow> bool" where
  "failed_calls [AI_run_call texts (Inl m')] m = (m' = m)"
| "failed_calls [AI_run_call texts (Inr data), Upsert_call recs (Some m')] m = (m' = m)"
| "failed_calls evs m = False"

text \<open>
  An input that the maps of a batch take without a \<^verbatim>\<open>TypeError\<close>: it is not
  \<^verbatim>\<open>null\<close>, its text can be built (no value that \<^verbatim>\<open>join\<close> turns into a string is,
  or holds in an array, an object with a property \<^verbatim>\<open>toString\<close>), and its tags are an
  array, a string or falsy.
\<close>

definition accepted_item :: "jsval \<Rightarrow> bool" where
  "accepted_item img =
     (case item_text img of
        Inl x \<Rightarrow> False
      | Inr t \<Rightarrow>
          (case props img of
             None \<Rightarrow> False
           | Some f \<Rightarrow> (case metadata_tags (f ''tags'') of Inl x \<Rightarrow> False | Inr ts \<Rightarrow> True)))"

text \<open>The record lists of the upsert calls of a trace that succeeded: what the index
  holds of the run.\<close>

fun upserted :: "event list \<Rightarrow> vector_record list list" where
  "upserted [] = []"
| "upserted (Upsert_call recs None # evs) = recs # upserted evs"
| "upserted (ev # evs) = upserted evs"

text \<open>The record lists of all the upsert calls of a trace, in order, failed or not.\<close>

fun upsert_calls :: "event list \<Rightarrow> vector_record list list" where
  "upsert_calls [] = []"
| "upsert_calls (Upsert_call recs r # evs) = recs # upsert_calls evs"
| "upsert_calls (ev # evs) = upsert_calls evs"

text \<open>The success count that a response reports: the \<^verbatim>\<open>indexed\<close> property of its JSON
  body. The body of an error response has the property \<^verbatim>\<open>error\<close> alone.\<close>

definition reported_indexed :: "response \<Rightarrow> jsval" where
  "reported_indexed r =
     (case body r of JsonBody (JObj kvs) \<Rightarrow> own_prop kvs ''indexed'' | _ \<Rightarrow> JUndefined)"

text \<open>\<^verbatim>\<open>clamp(limit, 1, 100)\<close> of the specification.\<close>

definition clamp :: "int \<Rightarrow> int \<Rightarrow> int \<Rightarrow> int" where
  "clamp x lo hi = (if x < lo then lo else if hi < x then hi else x)"

text \<open>
  The text to embed in the words of the specification: \<^verbatim>\<open>caption\<close>, \<^verbatim>\<open>alt\<close>, a
  component for the tags and \<^verbatim>\<open>project\<close>, in this order, the empty ones skipped, the
  others joined with a full stop and a space.
\<close>

definition spec_text :: "string \<Rightarrow> string \<Rightarrow> string \<Rightarrow> string \<Rightarrow> string" where
  "spec_text caption alt tagtext project =
     join_strings ''. '' (filter (\<lambda>s. s \<noteq> []) [caption, alt, tagtext, project])"

text \<open>The tags in the words of the specification: an array as it is; a string split on
  commas, every segment trimmed, the empty segments dropped.\<close>

definition spec_tags :: "string \<Rightarrow> string list" where
  "spec_tags s = filter (\<lambda>t. t \<noteq> []) (map trim (split_comma s))"

text \<open>An optional text input: absent, or a string.\<close>

fun opt_str :: "string option \<Rightarrow> jsval" where
  "opt_str None = JUndefined"
| "opt_str (Some s) = JStr s"

fun str_of :: "string option \<Rightarrow> string" where
  "str_of None = []"
| "str_of (Some s) = s"

text \<open>
  The metadata object that an input with the properties \<open>f\<close> is stored with: the six
  properties \<^verbatim>\<open>tags\<close>, \<^verbatim>\<open>alt\<close>, \<^verbatim>\<open>caption\<close>, \<^verbatim>\<open>project\<close>, \<^verbatim>\<open>src\<close> and
  \<^verbatim>\<open>thumb\<close>, where \<^verbatim>\<open>tags\<close> is an array, the one that the tags of the input give,
  and each of the others is the input's value when that is truthy and the empty string
  when it is not.
\<close>

definition stored_metadata :: "(string \<Rightarrow> jsval) \<Rightarrow> jsval \<Rightarrow> bool" where
  "stored_metadata f md =
     (case md of
        JObj kvs \<Rightarrow>
          map fst kvs = [''tags'', ''alt'', ''caption'', ''project'', ''src'', ''thumb''] \<and>
          isArray (own_prop kvs ''tags'') \<and>
          metadata_tags (f ''tags'') = Inr (own_prop kvs ''tags'') \<and>
          map snd (tl kvs) =
            map (\<lambda>k. or_empty (f k)) [''alt'', ''caption'', ''project'', ''src'', ''thumb'']
      | _ \<Rightarrow> False)"

text \<open>The record that an input is upserted as: it has the \<^verbatim>\<open>id\<close> of the input, and the
  metadata that this very input is stored with.\<close>

definition stored_record :: "jsval \<Rightarrow> vector_record \<Rightarrow> bool" where
  "stored_record img rec =
     (case props img of
        None \<Rightarrow> False
      | Some f \<Rightarrow> vr_id rec = f ''id'' \<and> stored_metadata f (vr_metadata rec))"

text \<open>The inputs of a batch request: the elements of its \<^verbatim>\<open>images\<close> array, and none
  when it has no such array.\<close>

definition batch_images :: "jsval \<Rightarrow> jsval list" where
  "batch_images reqbody =
     (case props reqbody of
        None \<Rightarrow> []
      | Some b \<Rightarrow> (case b ''images'' of JArr images \<Rightarrow> images | _ \<Rightarrow> []))"

text \<open>The strings among the tags of a match.\<close>

definition tag_strings :: "index_match \<Rightarrow> string set" where
  "tag_strings m = {t. \<exists>ts. match_tags m = JArr ts \<and> JStr t \<in> set ts}"

section \<open>Example services and requests\<close>

text \<open>Services that never fail: the model returns one vector for every text, the index
  takes every upsert and finds nothing.\<close>

definition steady_env :: env where
  "steady_env =
     \<lparr>AI_run = (\<lambda>tr texts. Inr (map (\<lambda>t. JArr [JNum (int (length t))]) texts)),
      GALLERY_INDEX_upsert = (\<lambda>tr recs. None),
      GALLERY_INDEX_query = (\<lambda>tr v k. Inr [])\<rparr>"

text \<open>Services where the model fails with \<^verbatim>\<open>quota\<close> on every call but the first of a
  run.\<close>

definition quota_env :: env where
  "quota_env =
     \<lparr>AI_run = (\<lambda>tr texts. if tr = [] then Inr (map (\<lambda>t. JArr [JNum 1]) texts)
                            else Inl ''quota''),
      GALLERY_INDEX_upsert = (\<lambda>tr recs. None),
      GALLERY_INDEX_query = (\<lambda>tr v k. Inr [])\<rparr>"

definition image_n :: "nat \<Rightarrow> jsval" where
  "image_n n = JObj [(''id'', JNum (int n)), (''caption'', JStr ''c'')]"

text \<open>An index that holds two records, with the tags \<^verbatim>\<open>["b","c"]\<close> and
  \<^verbatim>\<open>["a","b"]\<close>.\<close>

definition tags_env :: env where
  "tags_env =
     \<lparr>AI_run = (\<lambda>tr texts. Inr (map (\<lambda>t. JArr [JNum 1]) texts)),
      GALLERY_INDEX_upsert = (\<lambda>tr recs. None),
      GALLERY_INDEX_query =
        (\<lambda>tr v k. Inr [\<lparr>m_id = JStr ''p'', m_score = JNum 1,
                           m_metadata = JObj [(''tags'', JArr [JStr ''b'', JStr ''c''])]\<rparr>,
                         \<lparr>m_id = JStr ''q'', m_score = JNum 1,
                           m_metadata = JObj [(''tags'', JArr [JStr ''a'', JStr ''b''])]\<rparr>])\<rparr>"

text \<open>A batch of 25 inputs, and one of 11.\<close>

definition batch25 :: jsval where
  "batch25 = JObj [(''images'', JArr (map image_n [0 ..< 25]))]"

definition batch11 :: jsval where
  "batch11 = JObj [(''images'', JArr (map image_n [0 ..< 11]))]"

text \<open>A batch of two inputs that differ.\<close>

definition pair_batch :: jsval where
  "pair_batch =
     JObj [(''images'',
            JArr [JObj [(''id'', JStr ''p''), (''alt'', JStr ''first'')],
                  JObj [(''id'', JStr ''q''), (''tags'', JArr [JStr ''t''])]])]"

text \<open>The kind and the size of a call.\<close>

fun call_size :: "event \<Rightarrow> string \<times> nat" where
  "call_size (AI_run_call texts r) = (''embed'', length texts)"
| "call_size (Upsert_call recs r) = (''upsert'', length recs)"
| "call_size (Query_call v k r) = (''query'', 1)"

section \<open>Evaluating the handlers\<close>

lemmas handler_defs =
  handleIndex_def handleIndexBatch_def handleSearch_def process_batch_def
  item_text_def item_vector_def item_result_def prepare_metadata_def metadata_tags_def
  textForEmbedding_def tags_component_def or_empty_def js_join_def own_prop_def
  trim_def is_space_def js_index_def jsonResponse_def batchSize_def Let_def

lemma or_empty_opt_str: "or_empty (opt_str c) = JStr (str_of c)"
  by (cases c) (simp_all add: or_empty_def)

lemma join_elements_strings: "join_elements (map JStr ts) = Inr ts"
  by (induction ts) simp_all

lemma js_join_strings: "js_join sep (map JStr ts) = Inr (join_strings sep ts)"
  by (simp add: js_join_def join_elements_strings)

lemma ToString_throws: "ToString v = Inl x \<Longrightarrow> x = TypeError"
  and join_elements_throws: "join_elements vs = Inl x \<Longrightarrow> x = TypeError"
  by (induction v and vs rule: ToString_join_elements.induct)
     (auto split: sum.splits jsval.splits if_splits)

lemma js_join_throws: "js_join sep vs = Inl x \<Longrightarrow> x = TypeError"
  by (auto simp: js_join_def split: sum.splits dest: join_elements_throws)

lemma textForEmbedding_throws: "textForEmbedding c a t p = Inl x \<Longrightarrow> x = TypeError"
  by (auto simp: textForEmbedding_def tags_component_def
           split: sum.splits jsval.splits dest: js_join_throws)

lemma filter_truthy_strings:
  "filter truthy (map JStr ts) = map JStr (filter (\<lambda>s. s \<noteq> []) ts)"
  by (induction ts) simp_all

subsection \<open>The loop over the batches\<close>

declare chunks.simps [simp del] indexBatch_loop.simps [simp del]

lemma chunks_Nil: "chunks n [] = []"
  by (simp add: chunks.simps)

lemma chunks_step: "0 < n \<Longrightarrow> xs \<noteq> [] \<Longrightarrow> chunks n xs = take n xs # chunks n (drop n xs)"
  by (simp add: chunks.simps [of n xs])

lemma loop_as_batches:
  "indexBatch_loop e images i results tr =
     run_batches e (chunks batchSize (drop i images)) results tr"
proof (induction e images i results tr rule: indexBatch_loop.induct)
  case (1 e images i results tr)
  show ?case
  proof (cases "i < length images")
    case False
    then show ?thesis
      by (simp add: indexBatch_loop.simps [of e images i] chunks_Nil)
  next
    case True
    have ch: "chunks batchSize (drop i images) =
        take batchSize (drop i images) # chunks batchSize (drop (i + batchSize) images)"
      using True by (simp add: chunks_step batchSize_def add.commute)
    show ?thesis
    proof (cases "process_batch e (take batchSize (drop i images)) tr")
      case (Pair r tr')
      show ?thesis
      proof (cases r)
        case (Inl x)
        with Pair True show ?thesis
          by (simp add: indexBatch_loop.simps [of e images i] ch)
      next
        case (Inr rs)
        with Pair True "1.IH" show ?thesis
          by (simp add: indexBatch_loop.simps [of e images i] ch)
      qed
    qed
  qed
qed

lemma map_throw_Inr: "map_throw f xs = Inr ys \<Longrightarrow> map Inr ys = map f xs"
  by (induction xs arbitrary: ys) (auto split: sum.splits)

lemma map_throw_Inl: "map_throw f xs = Inl x \<Longrightarrow> \<exists>y \<in> set xs. f y = Inl x"
  by (induction xs) (auto split: sum.splits)

lemma map_throw_total:
  "(\<And>x. x \<in> set xs \<Longrightarrow> \<exists>y. f x = Inr y) \<Longrightarrow> \<exists>ys. map_throw f xs = Inr ys"
  by (induction xs) (fastforce split: sum.splits)+

lemma item_vector_Inr:
  "item_vector data (img, i) = Inr r \<Longrightarrow> vr_id r = item_id img \<and> vr_values r = js_index data i"
  by (auto simp: item_vector_def item_id_def split: option.splits sum.splits)

lemma vectors_of_batch:
  assumes "map_throw (item_vector data) (zip c [0 ..< length c]) = Inr recs"
  shows "map vr_id recs = map item_id c \<and> map vr_values recs = map (js_index data) [0 ..< length c]"
proof -
  have eq: "map Inr recs = map (item_vector data) (zip c [0 ..< length c])"
    using assms by (rule map_throw_Inr)
  then have len: "length recs = length c"
    by (metis length_map length_zip length_upt min.idem diff_zero)
  have nth: "item_vector data (c ! j, j) = Inr (recs ! j)" if "j < length c" for j
  proof -
    have "map Inr recs ! j = map (item_vector data) (zip c [0 ..< length c]) ! j"
      by (simp add: eq)
    with that len show ?thesis by simp
  qed
  show ?thesis
    using len by (auto intro!: nth_equalityI dest!: nth [THEN item_vector_Inr])
qed

lemma process_batch_Inr:
  assumes "process_batch e c tr = (Inr rs, tr')"
  shows "\<exists>texts data recs. tr' = tr @ [AI_run_call texts (Inr data), Upsert_call recs None] \<and>
           map Inr texts = map item_text c \<and> map vr_id recs = map item_id c \<and>
           map vr_values recs = map (js_index data) [0 ..< length c] \<and>
           map Inr rs = map item_result c"
  using assms
  by (auto simp: process_batch_def Let_def split: sum.splits option.splits
           dest: map_throw_Inr vectors_of_batch)

lemma chunks_concat: "0 < n \<Longrightarrow> concat (chunks n xs) = xs"
proof (induction n xs rule: chunks.induct)
  case (1 n xs)
  then show ?case
    by (cases "xs = []") (simp_all add: chunks_Nil chunks_step)
qed

lemma chunks_butlast_length:
  "0 < n \<Longrightarrow> c \<in> set (butlast (chunks n xs)) \<Longrightarrow> length c = n"
proof (induction n xs rule: chunks.induct)
  case (1 n xs)
  show ?case
  proof (cases "xs = []")
    case True
    with "1.prems" show ?thesis by (simp add: chunks_Nil)
  next
    case False
    show ?thesis
    proof (cases "drop n xs = []")
      case True
      with "1.prems" False show ?thesis by (simp add: chunks_step chunks_Nil)
    next
      case nonempty: False
      then have "chunks n (drop n xs) \<noteq> []"
        using "1.prems"(1) by (simp add: chunks_step [of n "drop n xs"])
      with "1.prems" False "1.IH" nonempty show ?thesis
        by (auto simp: chunks_step [of n xs])
    qed
  qed
qed

lemma chunks_length_le: "0 < n \<Longrightarrow> c \<in> set (chunks n xs) \<Longrightarrow> 0 < length c \<and> length c \<le> n"
proof (induction n xs rule: chunks.induct)
  case (1 n xs)
  then show ?case
    by (cases "xs = []") (auto simp: chunks_Nil chunks_step)
qed

lemma item_result_length: "map Inr rs = map item_result c \<Longrightarrow> length rs = length c"
  by (metis length_map)

lemma run_batches_Inr:
  "run_batches e cs rs0 tr = (Inr rs, tr') \<Longrightarrow>
     \<exists>evs. tr' = tr @ evs \<and> chunk_calls cs evs \<and> length rs = length rs0 + length (concat cs)"
proof (induction cs arbitrary: rs0 tr)
  case Nil
  then show ?case by simp
next
  case (Cons c cs)
  obtain r tr1 where pb: "process_batch e c tr = (r, tr1)" by (cases "process_batch e c tr")
  show ?case
  proof (cases r)
    case (Inl x)
    with pb Cons.prems show ?thesis by simp
  next
    case (Inr rs1)
    from pb Inr obtain texts data recs where
      tr1: "tr1 = tr @ [AI_run_call texts (Inr data), Upsert_call recs None]" and
      calls: "map Inr texts = map item_text c" "map vr_id recs = map item_id c"
        "map vr_values recs = map (js_index data) [0 ..< length c]" and
      res: "map Inr rs1 = map item_result c"
      using process_batch_Inr [of e c tr rs1 tr1] by auto
    from pb Inr Cons.prems have "run_batches e cs (rs0 @ rs1) tr1 = (Inr rs, tr')" by simp
    from Cons.IH [OF this] obtain evs where
      evs: "tr' = tr1 @ evs" "chunk_calls cs evs" "length rs = length (rs0 @ rs1) + length (concat cs)"
      by auto
    have "length rs1 = length c" using res by (rule item_result_length)
    with evs tr1 calls show ?thesis by simp
  qed
qed

lemma run_batches_fails:
  "run_batches e pre rs0 tr = (Inr rs, tr_k) \<Longrightarrow> process_batch e c tr_k = (Inl x, tr') \<Longrightarrow>
     run_batches e (pre @ c # post) rs0 tr = (Inl x, tr')"
proof (induction pre arbitrary: rs0 tr)
  case Nil
  then show ?case by simp
next
  case (Cons p pre)
  then show ?case
    by (cases "process_batch e p tr") (auto split: sum.splits)
qed

lemma item_text_throws: "item_text img = Inl x \<Longrightarrow> x = TypeError"
  by (auto simp: item_text_def split: option.splits dest: textForEmbedding_throws)

lemma item_vector_throws: "item_vector data p = Inl x \<Longrightarrow> x = TypeError"
  by (auto simp: item_vector_def prepare_metadata_def metadata_tags_def
           split: option.splits sum.splits jsval.splits)

lemma item_result_throws: "item_result img = Inl x \<Longrightarrow> x = TypeError"
  by (simp add: item_result_def split: option.splits)

lemma process_batch_ServiceError:
  assumes "process_batch e c tr = (Inl (ServiceError m), tr')"
  shows "\<exists>fl. tr' = tr @ fl \<and> failed_calls fl m"
  using assms
  by (auto simp: process_batch_def Let_def split: sum.splits option.splits
           dest!: map_throw_Inl dest: item_text_throws item_vector_throws item_result_throws)

lemma item_text_total: "accepted_item img \<Longrightarrow> \<exists>t. item_text img = Inr t"
  by (simp add: accepted_item_def split: sum.splits)

lemma item_vector_total: "accepted_item img \<Longrightarrow> \<exists>r. item_vector data (img, i) = Inr r"
  by (simp add: accepted_item_def item_vector_def prepare_metadata_def
           split: option.splits sum.splits)

lemma item_result_total: "accepted_item img \<Longrightarrow> \<exists>r. item_result img = Inr r"
  by (simp add: accepted_item_def item_result_def split: option.splits sum.splits)

lemma process_batch_total:
  assumes acc: "\<forall>img \<in> set c. accepted_item img"
      and ai: "\<forall>h texts. \<exists>data. AI_run e h texts = Inr data"
      and up: "\<forall>h recs. GALLERY_INDEX_upsert e h recs = None"
  shows "\<exists>rs tr'. process_batch e c tr = (Inr rs, tr')"
proof -
  obtain texts where t: "map_throw item_text c = Inr texts"
    using map_throw_total [of c item_text] acc item_text_total by blast
  obtain data where d: "AI_run e tr texts = Inr data" using ai by blast
  have "\<exists>r. item_vector data p = Inr r" if "p \<in> set (zip c [0 ..< length c])" for p
  proof -
    obtain img i where p: "p = (img, i)" by (cases p)
    with that have "img \<in> set c" by (auto dest: set_zip_leftD)
    with acc have "accepted_item img" by blast
    then show ?thesis unfolding p by (rule item_vector_total)
  qed
  then obtain recs where v: "map_throw (item_vector data) (zip c [0 ..< length c]) = Inr recs"
    using map_throw_total [of "zip c [0 ..< length c]" "item_vector data"] by blast
  obtain rs where r: "map_throw item_result c = Inr rs"
    using map_throw_total [of c item_result] acc item_result_total by blast
  show ?thesis
    by (simp add: process_batch_def t d v r up Let_def)
qed

lemma run_batches_total:
  assumes ai: "\<forall>h texts. \<exists>data. AI_run e h texts = Inr data"
      and up: "\<forall>h recs. GALLERY_INDEX_upsert e h recs = None"
  shows "\<forall>img \<in> set (concat cs). accepted_item img \<Longrightarrow> \<exists>rs tr'. run_batches e cs rs0 tr = (Inr rs, tr')"
proof (induction cs arbitrary: rs0 tr)
  case Nil
  then show ?case by simp
next
  case (Cons c cs)
  then have "\<forall>img \<in> set c. accepted_item img" by simp
  from process_batch_total [OF this ai up] obtain rs1 tr1 where
    "process_batch e c tr = (Inr rs1, tr1)" by blast
  moreover from Cons have "\<exists>rs tr'. run_batches e cs (rs0 @ rs1) tr1 = (Inr rs, tr')" by simp
  ultimately show ?case by simp
qed

lemma handleIndexBatch_run:
  assumes "props reqbody = Some b" and "b ''images'' = JArr images" and "images \<noteq> []"
  shows "handleIndexBatch e reqbody tr =
     (case run_batches e (chunks batchSize images) [] tr of
        (Inl x, tr') \<Rightarrow> (Inl x, tr')
      | (Inr results, tr') \<Rightarrow>
          (Inr (jsonResponse
                  (JObj [(''success'', JBool True),
                         (''indexed'', JNum (int (length results))),
                         (''results'', JArr results)]) 200), tr'))"
  using assms by (simp add: handleIndexBatch_def loop_as_batches)

lemmas run_defs =
  image_n_def handler_defs steady_env_def quota_env_def indexBatch_loop.simps upt_rec

subsection \<open>The tag set\<close>

lemma set_add_strings:
  "set_add (map JStr ss) (JStr t) = map JStr (if t \<in> set ss then ss else ss @ [t])"
  by (auto simp: set_add_def)

lemma foldl_set_add_strings:
  "distinct ss \<Longrightarrow>
     \<exists>ss'. foldl set_add (map JStr ss) (map JStr ts) = map JStr ss' \<and> distinct ss' \<and>
           set ss' = set ss \<union> set ts"
proof (induction ts arbitrary: ss)
  case Nil
  then show ?case by auto
next
  case (Cons t ts)
  let ?ss1 = "if t \<in> set ss then ss else ss @ [t]"
  have d: "distinct ?ss1" using Cons.prems by simp
  from Cons.IH [OF d] obtain ss' where
    "foldl set_add (map JStr ?ss1) (map JStr ts) = map JStr ss'" "distinct ss'"
    "set ss' = set ?ss1 \<union> set ts" by blast
  then show ?case
    by (intro exI [of _ ss']) (auto simp: set_add_strings split: if_splits)
qed

lemma tag_strings_array: "match_tags m = JArr (map JStr ts) \<Longrightarrow> tag_strings m = set ts"
  by (auto simp: tag_strings_def)

lemma tag_strings_none: "\<not> isArray (match_tags m) \<Longrightarrow> tag_strings m = {}"
  by (auto simp: tag_strings_def)

lemma collect_tags_strings:
  assumes "distinct ss"
      and "(\<exists>ts. match_tags m = JArr (map JStr ts)) \<or>
           (\<not> isArray (match_tags m) \<and> \<not> is_string (match_tags m))"
  shows "\<exists>ss'. collect_tags (map JStr ss) m = map JStr ss' \<and> distinct ss' \<and>
           set ss' = set ss \<union> tag_strings m"
  using assms(2)
proof
  assume "\<exists>ts. match_tags m = JArr (map JStr ts)"
  then obtain ts where ts: "match_tags m = JArr (map JStr ts)" by blast
  from foldl_set_add_strings [OF assms(1), of ts] ts show ?thesis
    by (simp add: collect_tags_def tag_strings_array)
next
  assume h: "\<not> isArray (match_tags m) \<and> \<not> is_string (match_tags m)"
  then have "collect_tags (map JStr ss) m = map JStr ss"
    by (cases "match_tags m") (simp_all add: collect_tags_def)
  with h assms(1) show ?thesis by (auto simp: tag_strings_none)
qed

lemma foldl_collect_tags_strings:
  assumes "\<forall>m \<in> set ms. (\<exists>ts. match_tags m = JArr (map JStr ts)) \<or>
             (\<not> isArray (match_tags m) \<and> \<not> is_string (match_tags m))"
  shows "distinct ss \<Longrightarrow>
     \<exists>ss'. foldl collect_tags (map JStr ss) ms = map JStr ss' \<and> distinct ss' \<and>
           set ss' = set ss \<union> (\<Union>m \<in> set ms. tag_strings m)"
  using assms
proof (induction ms arbitrary: ss)
  case Nil
  then show ?case by auto
next
  case (Cons m ms)
  from Cons.prems have
    "(\<exists>ts. match_tags m = JArr (map JStr ts)) \<or>
       (\<not> isArray (match_tags m) \<and> \<not> is_string (match_tags m))" by simp
  from collect_tags_strings [OF Cons.prems(1) this] obtain ss1 where
    s1: "collect_tags (map JStr ss) m = map JStr ss1" "distinct ss1"
        "set ss1 = set ss \<union> tag_strings m" by blast
  from Cons.prems have "\<forall>m \<in> set ms. (\<exists>ts. match_tags m = JArr (map JStr ts)) \<or>
             (\<not> isArray (match_tags m) \<and> \<not> is_string (match_tags m))" by simp
  from Cons.IH [OF s1(2) this] obtain ss' where
    "foldl collect_tags (map JStr ss1) ms = map JStr ss'" "distinct ss'"
    "set ss' = set ss1 \<union> (\<Union>m \<in> set ms. tag_strings m)" by blast
  with s1 show ?case
    by (intro exI [of _ ss']) auto
qed

lemma insort_key_map:
  "insort_key f (g x) (map g ys) = map g (insort_key (\<lambda>y. f (g y)) x ys)"
  by (induction ys) simp_all

lemma sort_key_map: "sort_key f (map g xs) = map g (sort_key (\<lambda>y. f (g y)) xs)"
  by (induction xs) (simp_all add: insort_key_map)

lemma map_throw_ToString_strings: "map_throw ToString (map JStr xs) = Inr xs"
  by (induction xs) simp_all

lemma js_sort_strings: "js_sort (map JStr xs) = Inr (map JStr (sort xs))"
proof -
  have d: "filter (\<lambda>v. v \<noteq> JUndefined) (map JStr xs) = map JStr xs"
    by (induction xs) simp_all
  have u: "filter (\<lambda>v. v = JUndefined) (map JStr xs) = []"
    by (induction xs) simp_all
  have z: "zip xs (map JStr xs) = map (\<lambda>s. (s, JStr s)) xs"
    by (induction xs) simp_all
  have srt: "map snd (sort_key fst (zip xs (map JStr xs))) = map JStr (sort xs)"
    unfolding z sort_key_map by (simp add: comp_def)
  have small: "sort xs = xs" if "length xs < 2"
    using that by (cases xs; cases "tl xs") auto
  show ?thesis
    by (simp add: js_sort_def d u map_throw_ToString_strings srt small Let_def)
qed

subsection \<open>The records of the upsert calls\<close>

lemma metadata_tags_array: "metadata_tags v = Inr ts \<Longrightarrow> isArray ts"
  by (auto simp: metadata_tags_def split: jsval.splits)

lemma prepare_metadata_shape: "prepare_metadata f = Inr md \<Longrightarrow> stored_metadata f md"
  by (auto simp: prepare_metadata_def stored_metadata_def own_prop_def
           split: sum.splits dest: metadata_tags_array)

lemma map_throw_all2: "map_throw f xs = Inr ys \<Longrightarrow> list_all2 (\<lambda>x y. f x = Inr y) xs ys"
  by (induction xs arbitrary: ys) (auto split: sum.splits)

lemma item_vector_stored:
  "item_vector data (img, i) = Inr r \<Longrightarrow> stored_record img r"
  by (auto simp: item_vector_def stored_record_def split: option.splits sum.splits
           dest: prepare_metadata_shape)

lemma vectors_stored:
  assumes "map_throw (item_vector data) (zip c [0 ..< length c]) = Inr recs"
  shows "list_all2 stored_record c recs"
proof -
  from map_throw_all2 [OF assms]
  have a: "list_all2 (\<lambda>p r. item_vector data p = Inr r) (zip c [0 ..< length c]) recs" .
  then have len: "length recs = length c" by (auto dest: list_all2_lengthD)
  have "stored_record (c ! i) (recs ! i)" if "i < length c" for i
  proof -
    from a that have "item_vector data (zip c [0 ..< length c] ! i) = Inr (recs ! i)"
      by (auto simp: list_all2_conv_all_nth)
    with that show ?thesis by (simp add: item_vector_stored)
  qed
  with len show ?thesis by (simp add: list_all2_conv_all_nth)
qed

lemma upsert_calls_append: "upsert_calls (xs @ ys) = upsert_calls xs @ upsert_calls ys"
  by (induction xs rule: upsert_calls.induct) simp_all

lemma process_batch_upsert_calls:
  assumes "process_batch e c tr = (out, tr')"
  shows "\<exists>evs. tr' = tr @ evs \<and>
           ((\<exists>x. out = Inl x) \<and> upsert_calls evs = [] \<or>
            (\<exists>recs. upsert_calls evs = [recs] \<and> list_all2 stored_record c recs))"
  using assms
  by (auto simp: process_batch_def Let_def split: sum.splits option.splits
           dest: vectors_stored)

lemma run_batches_upsert_calls:
  "run_batches e cs rs0 tr = (out, tr') \<Longrightarrow>
     \<exists>evs n. tr' = tr @ evs \<and>
       list_all2 (list_all2 stored_record) (take n cs) (upsert_calls evs)"
proof (induction cs arbitrary: rs0 tr)
  case Nil
  then show ?case by simp
next
  case (Cons c cs)
  obtain o1 tr1 where pb: "process_batch e c tr = (o1, tr1)" by (cases "process_batch e c tr")
  from process_batch_upsert_calls [OF pb] obtain evs1 where
    e1: "tr1 = tr @ evs1" and
    u1: "(\<exists>x. o1 = Inl x) \<and> upsert_calls evs1 = [] \<or>
         (\<exists>recs. upsert_calls evs1 = [recs] \<and> list_all2 stored_record c recs)"
    by blast
  show ?case
  proof (cases o1)
    case (Inl x)
    with pb Cons.prems have t: "tr' = tr1" by simp
    from u1 show ?thesis
    proof
      assume "(\<exists>x. o1 = Inl x) \<and> upsert_calls evs1 = []"
      then have "list_all2 (list_all2 stored_record) (take 0 (c # cs)) (upsert_calls evs1)"
        by simp
      with t e1 show ?thesis by blast
    next
      assume "\<exists>recs. upsert_calls evs1 = [recs] \<and> list_all2 stored_record c recs"
      then have "list_all2 (list_all2 stored_record) (take 1 (c # cs)) (upsert_calls evs1)"
        by auto
      with t e1 show ?thesis by blast
    qed
  next
    case (Inr rs1)
    with u1 obtain recs where
      r1: "upsert_calls evs1 = [recs]" "list_all2 stored_record c recs" by auto
    from Inr pb Cons.prems have "run_batches e cs (rs0 @ rs1) tr1 = (out, tr')" by simp
    from Cons.IH [OF this] obtain evs2 n where
      e2: "tr' = tr1 @ evs2"
          "list_all2 (list_all2 stored_record) (take n cs) (upsert_calls evs2)" by blast
    have "list_all2 (list_all2 stored_record) (take (Suc n) (c # cs))
            (upsert_calls (evs1 @ evs2))"
      using r1 e2(2) by (simp add: upsert_calls_append)
    moreover have "tr' = tr @ evs1 @ evs2" using e1 e2(1) by simp
    ultimately show ?thesis by blast
  qed
qed

lemma handleIndexBatch_upsert_calls:
  "\<exists>n. list_all2 (list_all2 stored_record) (take n (chunks batchSize (batch_images reqbody)))
         (upsert_calls (drop (length tr) (snd (handleIndexBatch e reqbody tr))))"
proof (cases "props reqbody")
  case None
  then have "snd (handleIndexBatch e reqbody tr) = tr" by (simp add: handleIndexBatch_def)
  then have "list_all2 (list_all2 stored_record) (take 0 (chunks batchSize (batch_images reqbody)))
         (upsert_calls (drop (length tr) (snd (handleIndexBatch e reqbody tr))))" by simp
  then show ?thesis ..
next
  case (Some b)
  show ?thesis
  proof (cases "\<exists>x xs. b ''images'' = JArr (x # xs)")
    case False
    have "snd (handleIndexBatch e reqbody tr) = tr"
    proof (cases "b ''images''")
      case (JArr xs)
      with False have "xs = []" by (cases xs) auto
      with JArr Some show ?thesis by (simp add: handleIndexBatch_def)
    qed (use Some in \<open>simp_all add: handleIndexBatch_def\<close>)
    then have "list_all2 (list_all2 stored_record) (take 0 (chunks batchSize (batch_images reqbody)))
         (upsert_calls (drop (length tr) (snd (handleIndexBatch e reqbody tr))))" by simp
    then show ?thesis ..
  next
    case True
    then obtain images where im: "b ''images'' = JArr images" "images \<noteq> []" by auto
    then have bi: "batch_images reqbody = images" using Some by (simp add: batch_images_def)
    obtain out tr' where rb: "run_batches e (chunks batchSize images) [] tr = (out, tr')"
      by (cases "run_batches e (chunks batchSize images) [] tr")
    have sn: "snd (handleIndexBatch e reqbody tr) = tr'"
      using handleIndexBatch_run [OF Some im, of e tr] rb by (cases out) simp_all
    from run_batches_upsert_calls [OF rb] obtain evs n where
      "tr' = tr @ evs"
      "list_all2 (list_all2 stored_record) (take n (chunks batchSize images)) (upsert_calls evs)"
      by blast
    then show ?thesis unfolding sn bi by auto
  qed
qed

lemma handleIndex_upsert_calls:
  assumes "recs \<in> set (upsert_calls (drop (length tr) (snd (handleIndex e reqbody tr))))"
  shows "\<exists>rec. recs = [rec] \<and> stored_record reqbody rec"
  using assms
  by (auto simp: handleIndex_def Let_def stored_record_def
           split: if_splits sum.splits option.splits dest: prepare_metadata_shape)

section \<open>The claims\<close>

text \<open>
  C1. The tags stored in a record's metadata are trimmed, non-empty strings: an array is
  used as it is; a single string is split on commas, each segment trimmed and the empty
  segments dropped, so that \<^verbatim>\<open>"a, b ,, c"\<close> is stored as \<^verbatim>\<open>["a","b","c"]\<close>.

  The code trims the segments and keeps the empty ones (lines 187 and 245 have no
  \<^verbatim>\<open>filter(Boolean)\<close>, which line 127 of \<^verbatim>\<open>handleGetTags\<close> has on the same
  expression): indexing that string stores four tags, the third one empty.
\<close>

theorem index_stores_empty_tag:
  "snd (handleIndex steady_env (JObj [(''id'', JStr ''x''), (''tags'', JStr ''a, b ,, c'')]) []) =
     [AI_run_call [''a, b ,, c''] (Inr [JArr [JNum 9]]),
      Upsert_call
        [\<lparr>vr_id = JStr ''x'', vr_values = JArr [JNum 9],
          vr_metadata =
            JObj [(''tags'', JArr [JStr ''a'', JStr ''b'', JStr [], JStr ''c'']),
                  (''alt'', JStr []), (''caption'', JStr []), (''project'', JStr []),
                  (''src'', JStr []), (''thumb'', JStr [])]\<rparr>]
        None]"
  by (simp add: handler_defs steady_env_def)

text \<open>
  C3. An indexing request (\<^verbatim>\<open>indexOne\<close>, or an item of \<^verbatim>\<open>indexBatch\<close>) in which
  caption, alt, tags and project are all empty is rejected with the client error for no
  embeddable text; with one of them non-empty the record is accepted.

  \<^verbatim>\<open>handleIndex\<close> rejects an input that has an \<^verbatim>\<open>id\<close> and nothing else, with status
  400 and no call to a service. \<^verbatim>\<open>handleIndexBatch\<close> has no such check: it embeds the
  empty text of the same input, upserts the record and reports success.
\<close>

theorem batch_indexes_textless_item:
  "handleIndex steady_env (JObj [(''id'', JStr ''x'')]) [] = (Inr no_text, []) \<and>
   status no_text = 400 \<and>
   fst (handleIndexBatch steady_env (JObj [(''images'', JArr [JObj [(''id'', JStr ''x'')]])]) []) =
     Inr (jsonResponse
            (JObj [(''success'', JBool True), (''indexed'', JNum 1),
                   (''results'', JArr [JObj [(''id'', JStr ''x''), (''success'', JBool True)]])])
            200) \<and>
   map vr_id
     (concat (upserted (snd (handleIndexBatch steady_env
        (JObj [(''images'', JArr [JObj [(''id'', JStr ''x'')]])]) [])))) = [JStr ''x'']"
  by (simp add: handler_defs steady_env_def no_text_def indexBatch_loop.simps)

text \<open>
  C4. The text submitted for embedding is caption, alt, the normalized tags joined with
  single spaces, and project, in this order, the empty components skipped and the others
  joined with a full stop and a space.

  This fails for tags given as one string: the code puts the string into the text as it
  was supplied, commas included, while the tags it stores for \<^verbatim>\<open>"a,b"\<close> are
  \<^verbatim>\<open>["a","b"]\<close>.
\<close>

theorem text_of_string_tags_counterexample:
  "metadata_tags (JStr ''a,b'') = Inr (JArr [JStr ''a'', JStr ''b'']) \<and>
   spec_tags ''a,b'' = [''a'', ''b''] \<and>
   textForEmbedding (JStr ''c'') JUndefined (JStr ''a,b'') JUndefined = Inr ''c. a,b'' \<and>
   spec_text ''c'' [] (join_strings '' '' [''a'', ''b'']) [] = ''c. a b'' \<and>
   textForEmbedding (JStr ''c'') JUndefined (JStr ''a,b'') JUndefined \<noteq>
     Inr (spec_text ''c'' [] (join_strings '' '' (spec_tags ''a,b'')) [])"
  by (simp add: handler_defs spec_text_def spec_tags_def)

text \<open>
  C4, amended. For caption, alt and project each absent or a string, the text is built
  from caption, alt, a tags component and project, in this order, empty components
  skipped, the others joined with a full stop and a space; the tags component is the
  elements joined with single spaces when the tags are an array of strings, and the
  string as supplied when the tags are one string (nothing when they are absent).
\<close>

theorem text_for_embedding_components:
  "textForEmbedding (opt_str c) (opt_str a) (JArr (map JStr ts)) (opt_str p) =
     Inr (spec_text (str_of c) (str_of a) (join_strings '' '' ts) (str_of p)) \<and>
   textForEmbedding (opt_str c) (opt_str a) (opt_str t) (opt_str p) =
     Inr (spec_text (str_of c) (str_of a) (str_of t) (str_of p))"
proof -
  have arr: "textForEmbedding (opt_str c) (opt_str a) (JArr (map JStr ts)) (opt_str p) =
      js_join ''. ''
        (filter truthy (map JStr [str_of c, str_of a, join_strings '' '' ts, str_of p]))"
    by (simp add: textForEmbedding_def tags_component_def or_empty_opt_str js_join_strings)
  have tc: "tags_component (opt_str t) = Inr (JStr (str_of t))"
    by (cases t) (simp_all add: tags_component_def or_empty_def)
  have str: "textForEmbedding (opt_str c) (opt_str a) (opt_str t) (opt_str p) =
      js_join ''. '' (filter truthy (map JStr [str_of c, str_of a, str_of t, str_of p]))"
    by (simp add: textForEmbedding_def tc or_empty_opt_str)
  show ?thesis
    unfolding arr str filter_truthy_strings js_join_strings spec_text_def by simp
qed

text \<open>
  C5. For a search with a valid query and an integer limit, the \<^verbatim>\<open>topK\<close> passed to the
  vector index is \<^verbatim>\<open>clamp(limit, 1, 100)\<close>: never above 100 and never below 1.

  The code takes \<^verbatim>\<open>Math.min(limit, 100)\<close> and has no lower bound: with limit 0 the
  index is queried with \<^verbatim>\<open>topK\<close> 0, where the clamp gives 1.
\<close>

theorem search_limit_zero_counterexample:
  "snd (handleSearch steady_env (JObj [(''query'', JStr ''q''), (''limit'', JNum 0)]) []) =
     [AI_run_call [''q''] (Inr [JArr [JNum 1]]),
      Query_call (JArr [JNum 1]) (Some 0) (Inr [])] \<and>
   clamp 0 1 100 = 1"
  by (simp add: handler_defs steady_env_def Math_min_def clamp_def)

text \<open>
  C5, amended. For a search with a valid query and an integer limit \<open>n\<close> (20 when the
  body has none) whose embedding call succeeds, the \<^verbatim>\<open>topK\<close> passed to the vector index
  is the smaller of \<open>n\<close> and 100: it never exceeds 100, it is \<^verbatim>\<open>clamp(n, 1, 100)\<close>
  for every \<open>n\<close> of at least 1, and it is \<open>n\<close> itself for every \<open>n\<close> below 1.
\<close>

theorem search_topK_is_min:
  assumes "props reqbody = Some b"
      and "b ''query'' = JStr q" and "q \<noteq> []"
      and "(if b ''limit'' = JUndefined then JNum 20 else b ''limit'') = JNum n"
      and "AI_run e tr [q] = Inr data"
  shows "snd (handleSearch e reqbody tr) =
           tr @ [AI_run_call [q] (Inr data),
                 Query_call (js_index data 0) (Some (min n 100))
                   (GALLERY_INDEX_query e (tr @ [AI_run_call [q] (Inr data)])
                      (js_index data 0) (Some (min n 100)))] \<and>
         min n 100 \<le> 100 \<and>
         (1 \<le> n \<longrightarrow> min n 100 = clamp n 1 100) \<and>
         (n < 1 \<longrightarrow> min n 100 = n)"
  using assms
  by (auto simp: handleSearch_def Let_def Math_min_def clamp_def split: sum.splits)

theorem search_topK_is_min_witness:
  "snd (handleSearch steady_env (JObj [(''query'', JStr ''valid query''), (''limit'', JNum 500)]) []) =
     [AI_run_call [''valid query''] (Inr [JArr [JNum 11]]),
      Query_call (JArr [JNum 11]) (Some 100) (Inr [])] \<and>
   snd (handleSearch steady_env (JObj [(''query'', JStr ''valid query'')]) []) =
     [AI_run_call [''valid query''] (Inr [JArr [JNum 11]]),
      Query_call (JArr [JNum 11]) (Some 20) (Inr [])]"
  using search_topK_is_min [of "JObj [(''query'', JStr ''valid query''), (''limit'', JNum 500)]"
          "own_prop [(''query'', JStr ''valid query''), (''limit'', JNum 500)]"
          "''valid query''" 500 steady_env "[]" "[JArr [JNum 11]]"]
        search_topK_is_min [of "JObj [(''query'', JStr ''valid query'')]"
          "own_prop [(''query'', JStr ''valid query'')]"
          "''valid query''" 20 steady_env "[]" "[JArr [JNum 11]]"]
  by (simp add: own_prop_def steady_env_def js_index_def)

text \<open>
  C7. A search fails with the client error for an invalid query if and only if the query
  is empty or not a text value; a query that is embedded and matches nothing is not an
  error and returns the empty list of results.
\<close>

theorem search_invalid_query_iff:
  assumes "props reqbody = Some b"
  shows "((fst (handleSearch e reqbody tr) = Inr invalid_query) =
            (\<not> truthy (b ''query'') \<or> \<not> is_string (b ''query''))) \<and>
         status invalid_query = 400 \<and>
         (snd (handleSearch e reqbody tr) = tr @ [ev, Query_call v k (Inr [])] \<longrightarrow>
            fst (handleSearch e reqbody tr) = Inr (jsonResponse (JArr []) 200))"
  using assms
  by (cases "b ''query''")
     (auto simp: handleSearch_def Let_def invalid_query_def jsonResponse_def
           split: sum.splits)

theorem search_invalid_query_iff_witness:
  "fst (handleSearch steady_env (JObj [(''query'', JStr [])]) []) = Inr invalid_query \<and>
   fst (handleSearch steady_env (JObj [(''query'', JNum 7)]) []) = Inr invalid_query \<and>
   fst (handleSearch steady_env (JObj [(''limit'', JNum 20)]) []) = Inr invalid_query \<and>
   status invalid_query = 400 \<and>
   fst (handleSearch steady_env (JObj [(''query'', JStr ''nonexistent-term-xyz'')]) []) \<noteq>
     Inr invalid_query \<and>
   fst (handleSearch steady_env (JObj [(''query'', JStr ''nonexistent-term-xyz'')]) []) =
     Inr (jsonResponse (JArr []) 200)"
  using search_invalid_query_iff [of "JObj [(''query'', JStr [])]" "own_prop [(''query'', JStr [])]"
          steady_env "[]"]
        search_invalid_query_iff [of "JObj [(''query'', JNum 7)]" "own_prop [(''query'', JNum 7)]"
          steady_env "[]"]
        search_invalid_query_iff [of "JObj [(''limit'', JNum 20)]" "own_prop [(''limit'', JNum 20)]"
          steady_env "[]"]
        search_invalid_query_iff [of "JObj [(''query'', JStr ''nonexistent-term-xyz'')]"
          "own_prop [(''query'', JStr ''nonexistent-term-xyz'')]" steady_env "[]"
          "AI_run_call [''nonexistent-term-xyz''] (Inr [JArr [JNum 20]])"
          "JArr [JNum 20]" "Some 20"]
  by (simp add: own_prop_def handler_defs steady_env_def Math_min_def)

text \<open>
  C9. \<^verbatim>\<open>indexBatch\<close> fails with the client error for an empty batch when the
  \<^verbatim>\<open>images\<close> property is missing, not an array, or an empty array, and it issues no
  embedding and no upsert call then: the trace stays as it was.
\<close>

theorem empty_batch_rejected:
  assumes "props reqbody = Some b"
      and "\<not> isArray (b ''images'') \<or> b ''images'' = JArr []"
  shows "handleIndexBatch e reqbody tr = (Inr empty_batch, tr) \<and>
         status empty_batch = 400 \<and>
         fetch e \<lparr>req_method = ''POST'', req_path = ''/index-batch'', req_json = reqbody\<rparr> tr =
           (empty_batch, tr)"
proof -
  have h: "handleIndexBatch e reqbody tr = (Inr empty_batch, tr)"
    using assms by (cases "b ''images''") (simp_all add: handleIndexBatch_def)
  show ?thesis
    by (simp add: h fetch_def try_catch_def corsResponse_def empty_batch_def jsonResponse_def)
qed

theorem empty_batch_rejected_witness:
  "handleIndexBatch quota_env (JObj []) [] = (Inr empty_batch, []) \<and>
   handleIndexBatch quota_env (JObj [(''images'', JStr ''x'')]) [] = (Inr empty_batch, []) \<and>
   handleIndexBatch quota_env (JObj [(''images'', JArr [])]) [] = (Inr empty_batch, []) \<and>
   status empty_batch = 400"
  using empty_batch_rejected [of "JObj []" "own_prop []" quota_env "[]"]
        empty_batch_rejected [of "JObj [(''images'', JStr ''x'')]"
          "own_prop [(''images'', JStr ''x'')]" quota_env "[]"]
        empty_batch_rejected [of "JObj [(''images'', JArr [])]"
          "own_prop [(''images'', JArr [])]" quota_env "[]"]
  by (simp add: own_prop_def)

text \<open>
  C6. \<^verbatim>\<open>indexBatch\<close> cuts the input into chunks of 10 and, for each chunk in input
  order, issues exactly one embedding call for the whole chunk and then exactly one
  upsert call, the \<open>i\<close>-th returned vector going to the \<open>i\<close>-th input of the chunk; a
  batch of 25 gives 3 embedding calls of sizes 10, 10 and 5 and 3 upsert calls, in order.

  For a body with a non-empty array of images: a run that returns a response has issued
  exactly the calls of its chunks, and answers 200 with the number of images; the run
  does return when no service call fails and every input is one that the code takes
  without a \<^verbatim>\<open>TypeError\<close> (it is not \<^verbatim>\<open>null\<close>, its text can be built, and its tags
  are an array, a string or falsy); the chunks put together are the input, each but the
  last has 10 elements, and none is empty or longer.
\<close>

theorem batch_calls_per_chunk:
  assumes "props reqbody = Some b" and "b ''images'' = JArr images" and "images \<noteq> []"
  shows "(fst (handleIndexBatch e reqbody tr) = Inr resp \<longrightarrow>
            (\<exists>evs. snd (handleIndexBatch e reqbody tr) = tr @ evs \<and>
                   chunk_calls (chunks batchSize images) evs) \<and>
            status resp = 200 \<and> reported_indexed resp = JNum (int (length images))) \<and>
         ((\<forall>img \<in> set images. accepted_item img) \<and>
          (\<forall>h texts. \<exists>data. AI_run e h texts = Inr data) \<and>
          (\<forall>h recs. GALLERY_INDEX_upsert e h recs = None) \<longrightarrow>
            (\<exists>r. fst (handleIndexBatch e reqbody tr) = Inr r)) \<and>
         concat (chunks batchSize images) = images \<and>
         (\<forall>c \<in> set (butlast (chunks batchSize images)). length c = batchSize) \<and>
         (\<forall>c \<in> set (chunks batchSize images). 0 < length c \<and> length c \<le> batchSize)"
proof -
  have pos: "0 < batchSize" by (simp add: batchSize_def)
  note run = handleIndexBatch_run [OF assms, of e tr]
  have cc: "concat (chunks batchSize images) = images" using pos by (rule chunks_concat)
  have a: "fst (handleIndexBatch e reqbody tr) = Inr resp \<longrightarrow>
            (\<exists>evs. snd (handleIndexBatch e reqbody tr) = tr @ evs \<and>
                   chunk_calls (chunks batchSize images) evs) \<and>
            status resp = 200 \<and> reported_indexed resp = JNum (int (length images))"
  proof
    assume ok: "fst (handleIndexBatch e reqbody tr) = Inr resp"
    obtain r tr' where rb: "run_batches e (chunks batchSize images) [] tr = (r, tr')"
      by (cases "run_batches e (chunks batchSize images) [] tr")
    with ok run obtain rs where r: "r = Inr rs" by (cases r) auto
    from run_batches_Inr [OF rb [unfolded r]] obtain evs where
      evs: "tr' = tr @ evs" "chunk_calls (chunks batchSize images) evs"
        "length rs = length (concat (chunks batchSize images))" by auto
    from ok run rb r have resp: "resp = jsonResponse
                  (JObj [(''success'', JBool True),
                         (''indexed'', JNum (int (length rs))),
                         (''results'', JArr rs)]) 200" by simp
    from run rb r evs have "snd (handleIndexBatch e reqbody tr) = tr @ evs" by simp
    with evs resp show "(\<exists>evs. snd (handleIndexBatch e reqbody tr) = tr @ evs \<and>
                   chunk_calls (chunks batchSize images) evs) \<and>
            status resp = 200 \<and> reported_indexed resp = JNum (int (length images))"
      by (auto simp: cc jsonResponse_def reported_indexed_def own_prop_def)
  qed
  have b: "(\<forall>img \<in> set images. accepted_item img) \<and>
          (\<forall>h texts. \<exists>data. AI_run e h texts = Inr data) \<and>
          (\<forall>h recs. GALLERY_INDEX_upsert e h recs = None) \<longrightarrow>
            (\<exists>r. fst (handleIndexBatch e reqbody tr) = Inr r)"
  proof
    assume h: "(\<forall>img \<in> set images. accepted_item img) \<and>
          (\<forall>h texts. \<exists>data. AI_run e h texts = Inr data) \<and>
          (\<forall>h recs. GALLERY_INDEX_upsert e h recs = None)"
    then have "\<forall>img \<in> set (concat (chunks batchSize images)). accepted_item img"
      unfolding cc by blast
    with h run_batches_total [of e "chunks batchSize images" "[]" tr]
    obtain rs tr' where "run_batches e (chunks batchSize images) [] tr = (Inr rs, tr')" by blast
    with run show "\<exists>r. fst (handleIndexBatch e reqbody tr) = Inr r" by simp
  qed
  show ?thesis
    using a b cc chunks_butlast_length [OF pos] chunks_length_le [OF pos] by blast
qed

text \<open>The batch of 25 inputs: three embedding calls of sizes 10, 10 and 5, each followed by
  the upsert call of the same size.\<close>

theorem batch_calls_per_chunk_witness:
  "fst (handleIndexBatch steady_env batch25 []) =
     Inr (jsonResponse
            (JObj [(''success'', JBool True), (''indexed'', JNum 25),
                   (''results'',
                    JArr (map (\<lambda>n. JObj [(''id'', JNum (int n)), (''success'', JBool True)])
                            [0 ..< 25]))]) 200) \<and>
   map call_size (snd (handleIndexBatch steady_env batch25 [])) =
     [(''embed'', 10), (''upsert'', 10), (''embed'', 10), (''upsert'', 10),
      (''embed'', 5), (''upsert'', 5)] \<and>
   chunk_calls (chunks batchSize (map image_n [0 ..< 25]))
     (snd (handleIndexBatch steady_env batch25 [])) \<and>
   map length (chunks batchSize (map image_n [0 ..< 25])) = [10, 10, 5]"
proof -
  let ?imgs = "map image_n [0 ..< 25]"
  let ?resp = "jsonResponse
            (JObj [(''success'', JBool True), (''indexed'', JNum 25),
                   (''results'',
                    JArr (map (\<lambda>n. JObj [(''id'', JNum (int n)), (''success'', JBool True)])
                            [0 ..< 25]))]) 200"
  have p1: "props batch25 = Some (own_prop [(''images'', JArr ?imgs)])"
    by (simp add: batch25_def)
  have p2: "own_prop [(''images'', JArr ?imgs)] ''images'' = JArr ?imgs"
    by (simp add: own_prop_def)
  have p3: "?imgs \<noteq> []" by (simp add: upt_rec)
  have r: "fst (handleIndexBatch steady_env batch25 []) = Inr ?resp"
    by (simp add: batch25_def run_defs)
  have s: "map call_size (snd (handleIndexBatch steady_env batch25 [])) =
     [(''embed'', 10), (''upsert'', 10), (''embed'', 10), (''upsert'', 10),
      (''embed'', 5), (''upsert'', 5)]"
    by (simp add: batch25_def run_defs)
  have l: "map length (chunks batchSize ?imgs) = [10, 10, 5]"
    by (simp add: chunks.simps batchSize_def upt_rec)
  from batch_calls_per_chunk [OF p1 p2 p3, of steady_env "[]" ?resp] r
  have "\<exists>evs. snd (handleIndexBatch steady_env batch25 []) = [] @ evs \<and>
              chunk_calls (chunks batchSize ?imgs) evs" by blast
  then have "chunk_calls (chunks batchSize ?imgs) (snd (handleIndexBatch steady_env batch25 []))"
    by auto
  with r s l show ?thesis by blast
qed

text \<open>
  C2. If the embedding or the upsert call for chunk \<open>k\<close> of \<^verbatim>\<open>indexBatch\<close> fails, the
  chunks before \<open>k\<close> remain indexed, the chunks from \<open>k\<close> on are unprocessed, and the
  response reports the prefix that succeeded as a cumulative success count, the number of
  items of the chunks before the failure.

  The response reports no count. With 11 inputs and an embedding model that fails on its
  second call, the first chunk of 10 is upserted, and the response is the status 500
  with the error message alone: it has no \<^verbatim>\<open>indexed\<close> property.
\<close>

theorem batch_failure_no_count_counterexample:
  "fst (fetch quota_env \<lparr>req_method = ''POST'', req_path = ''/index-batch'', req_json = batch11\<rparr> []) =
     \<lparr>status = 500, body = ErrorBody (ServiceError ''quota'')\<rparr> \<and>
   reported_indexed
     (fst (fetch quota_env \<lparr>req_method = ''POST'', req_path = ''/index-batch'', req_json = batch11\<rparr> []))
     \<noteq> JNum 10 \<and>
   map call_size
     (snd (fetch quota_env \<lparr>req_method = ''POST'', req_path = ''/index-batch'', req_json = batch11\<rparr> [])) =
     [(''embed'', 10), (''upsert'', 10), (''embed'', 1)] \<and>
   map (map vr_id)
     (upserted (snd (fetch quota_env
        \<lparr>req_method = ''POST'', req_path = ''/index-batch'', req_json = batch11\<rparr> []))) =
     [map (\<lambda>n. JNum (int n)) [0 ..< 10]]"
  by (simp add: batch11_def run_defs fetch_def try_catch_def corsResponse_def reported_indexed_def)

text \<open>
  C2, amended. If the embedding or the upsert call for chunk \<open>k\<close> fails with message
  \<open>m\<close>, after the chunks \<open>pre\<close> before it went through, then every chunk of \<open>pre\<close> has
  had its embedding call and its successful upsert call, the failed call of chunk \<open>k\<close>
  is the last call of the run (no call is issued for a later chunk), and the response is
  the status 500 with the message \<open>m\<close> and no success count.
\<close>

theorem batch_failure_keeps_prefix:
  assumes "props reqbody = Some b" and "b ''images'' = JArr images"
      and "chunks batchSize images = pre @ c # post"
      and "run_batches e pre [] tr = (Inr rs, tr_k)"
      and "process_batch e c tr_k = (Inl (ServiceError m), tr')"
  shows "fetch e \<lparr>req_method = ''POST'', req_path = ''/index-batch'', req_json = reqbody\<rparr> tr =
           (\<lparr>status = 500, body = ErrorBody (ServiceError m)\<rparr>, tr') \<and>
         reported_indexed \<lparr>status = 500, body = ErrorBody (ServiceError m)\<rparr> = JUndefined \<and>
         (\<exists>evs fl. tr' = tr @ evs @ fl \<and> chunk_calls pre evs \<and> failed_calls fl m)"
proof -
  have ne: "images \<noteq> []"
    using assms(3) by (auto simp: chunks_Nil)
  have "run_batches e (chunks batchSize images) [] tr = (Inl (ServiceError m), tr')"
    unfolding assms(3) using assms(4,5) by (rule run_batches_fails)
  with handleIndexBatch_run [OF assms(1,2) ne, of e tr]
  have h: "handleIndexBatch e reqbody tr = (Inl (ServiceError m), tr')" by simp
  from run_batches_Inr [OF assms(4)] obtain evs where
    evs: "tr_k = tr @ evs" "chunk_calls pre evs" by auto
  from process_batch_ServiceError [OF assms(5)] obtain fl where
    fl: "tr' = tr_k @ fl" "failed_calls fl m" by auto
  have "\<exists>evs fl. tr' = tr @ evs @ fl \<and> chunk_calls pre evs \<and> failed_calls fl m"
    using evs fl by auto
  then show ?thesis
    by (simp add: h fetch_def try_catch_def corsResponse_def reported_indexed_def)
qed

theorem batch_failure_keeps_prefix_witness:
  "fst (fetch quota_env \<lparr>req_method = ''POST'', req_path = ''/index-batch'', req_json = batch11\<rparr> []) =
     \<lparr>status = 500, body = ErrorBody (ServiceError ''quota'')\<rparr> \<and>
   (\<exists>evs fl.
      snd (fetch quota_env \<lparr>req_method = ''POST'', req_path = ''/index-batch'', req_json = batch11\<rparr> [])
        = evs @ fl \<and>
      chunk_calls [map image_n [0 ..< 10]] evs \<and> failed_calls fl ''quota'')"
proof -
  let ?imgs = "map image_n [0 ..< 11]"
  let ?pre = "[map image_n [0 ..< 10]]"
  let ?c = "[image_n 10]"
  let ?run = "run_batches quota_env ?pre [] []"
  let ?rs = "case fst ?run of Inr rs \<Rightarrow> rs | Inl x \<Rightarrow> []"
  let ?tr' = "snd (process_batch quota_env ?c (snd ?run))"
  have p1: "props batch11 = Some (own_prop [(''images'', JArr ?imgs)])"
    by (simp add: batch11_def)
  have p2: "own_prop [(''images'', JArr ?imgs)] ''images'' = JArr ?imgs"
    by (simp add: own_prop_def)
  have p3: "chunks batchSize ?imgs = ?pre @ ?c # []"
    by (simp add: chunks.simps batchSize_def upt_rec image_n_def)
  have p4: "?run = (Inr ?rs, snd ?run)"
    by (simp add: run_defs)
  have p5: "process_batch quota_env ?c (snd ?run) = (Inl (ServiceError ''quota''), ?tr')"
    by (simp add: run_defs)
  from batch_failure_keeps_prefix [OF p1 p2 p3 p4 p5]
  show ?thesis by auto
qed

text \<open>
  C8. \<^verbatim>\<open>listTags\<close> returns exactly the deduplicated union of the tags of all returned
  records' metadata, sorted ascending in lexicographic order; records with the tags
  \<^verbatim>\<open>["a","b"]\<close> and \<^verbatim>\<open>["b","c"]\<close> give \<^verbatim>\<open>["a","b","c"]\<close>.

  Here every returned record has an array of strings for its tags, or tags that are
  neither an array nor a string (absent, for one), which contribute nothing.
\<close>

theorem tags_sorted_distinct_union:
  assumes "GALLERY_INDEX_query e tr dummyVector (Some 10000) = Inr ms"
      and "\<forall>m \<in> set ms. (\<exists>ts. match_tags m = JArr (map JStr ts)) \<or>
             (\<not> isArray (match_tags m) \<and> \<not> is_string (match_tags m))"
  shows "\<exists>out. fst (handleGetTags e tr) = Inr (jsonResponse (JArr (map JStr out)) 200) \<and>
           sorted out \<and> distinct out \<and> set out = (\<Union>m \<in> set ms. tag_strings m)"
proof -
  from foldl_collect_tags_strings [OF assms(2), of "[]"] obtain ss where
    ss: "foldl collect_tags [] ms = map JStr ss" "distinct ss"
        "set ss = (\<Union>m \<in> set ms. tag_strings m)" by auto
  have "fst (handleGetTags e tr) = Inr (jsonResponse (JArr (map JStr (sort ss))) 200)"
    by (simp add: handleGetTags_def assms(1) ss(1) js_sort_strings)
  with ss show ?thesis
    by (intro exI [of _ "sort ss"]) simp
qed

text \<open>The index with the tags \<^verbatim>\<open>["b","c"]\<close> and \<^verbatim>\<open>["a","b"]\<close>.\<close>

theorem tags_sorted_distinct_union_witness:
  "(\<exists>out. fst (handleGetTags tags_env []) = Inr (jsonResponse (JArr (map JStr out)) 200) \<and>
          sorted out \<and> distinct out \<and> set out = {''a'', ''b'', ''c''}) \<and>
   fst (handleGetTags tags_env []) =
     Inr (jsonResponse (JArr [JStr ''a'', JStr ''b'', JStr ''c'']) 200)"
proof -
  let ?p = "\<lparr>m_id = JStr ''p'', m_score = JNum 1,
             m_metadata = JObj [(''tags'', JArr [JStr ''b'', JStr ''c''])]\<rparr>"
  let ?q = "\<lparr>m_id = JStr ''q'', m_score = JNum 1,
             m_metadata = JObj [(''tags'', JArr [JStr ''a'', JStr ''b''])]\<rparr>"
  have q: "GALLERY_INDEX_query tags_env [] dummyVector (Some 10000) = Inr [?p, ?q]"
    by (simp add: tags_env_def)
  have tp: "match_tags ?p = JArr (map JStr [''b'', ''c''])"
    by (simp add: match_tags_def own_prop_def)
  have tq: "match_tags ?q = JArr (map JStr [''a'', ''b''])"
    by (simp add: match_tags_def own_prop_def)
  have h: "\<forall>m \<in> set [?p, ?q]. (\<exists>ts. match_tags m = JArr (map JStr ts)) \<or>
             (\<not> isArray (match_tags m) \<and> \<not> is_string (match_tags m))"
    using tp tq by (metis empty_iff empty_set set_ConsD)
  have u: "(\<Union>m \<in> set [?p, ?q]. tag_strings m) = {''a'', ''b'', ''c''}"
    using tag_strings_array [OF tp] tag_strings_array [OF tq] by auto
  have ev: "fst (handleGetTags tags_env []) =
     Inr (jsonResponse (JArr [JStr ''a'', JStr ''b'', JStr ''c'']) 200)"
    by (simp add: handleGetTags_def tags_env_def collect_tags_def match_tags_def own_prop_def
         set_add_def js_sort_def)
  from tags_sorted_distinct_union [OF q h] u ev show ?thesis by simp
qed

text \<open>
  C10. Every record upserted by \<^verbatim>\<open>indexOne\<close> or \<^verbatim>\<open>indexBatch\<close> has a metadata object
  of exactly the six properties tags, alt, caption, project, src and thumb, where tags is
  a sequence and each of the other five is a string, an absent input stored as the empty
  string.

  The five are not always strings: the code stores \<^verbatim>\<open>alt || ''\<close>, which is the input
  itself when that is truthy. An input with the number 5 for \<^verbatim>\<open>alt\<close> is stored with
  the number.
\<close>

theorem metadata_alt_number_counterexample:
  "map vr_metadata
     (concat (upserted (snd (handleIndex steady_env
        (JObj [(''id'', JStr ''x''), (''caption'', JStr ''c''), (''alt'', JNum 5)]) [])))) =
     [JObj [(''tags'', JArr [JStr []]), (''alt'', JNum 5), (''caption'', JStr ''c''),
            (''project'', JStr []), (''src'', JStr []), (''thumb'', JStr [])]] \<and>
   \<not> is_string (JNum 5)"
  by (simp add: handler_defs steady_env_def Let_def)

text \<open>
  C10, amended. Every record of an upsert call of \<^verbatim>\<open>handleIndex\<close> or
  \<^verbatim>\<open>handleIndexBatch\<close> has the \<^verbatim>\<open>id\<close> of its own input and a metadata object of
  exactly the six properties tags, alt, caption, project, src and thumb, in this order,
  where tags is an array, the one that the tags of that input give, and each of the
  other five is the value of that input when it is truthy and the empty string when it
  is not: the empty string for an absent input, and a string for every input that is a
  string. In \<^verbatim>\<open>handleIndex\<close> a call has one record, that of the request body; in
  \<^verbatim>\<open>handleIndexBatch\<close> the calls are, in order, those of the first chunks of the
  images, and the \<open>i\<close>-th record of a call is that of the \<open>i\<close>-th input of its chunk.
\<close>

theorem upserted_metadata_fields:
  "(\<forall>recs \<in> set (upsert_calls (drop (length tr) (snd (handleIndex e reqbody tr)))).
      \<exists>rec. recs = [rec] \<and> stored_record reqbody rec) \<and>
   (\<exists>n. list_all2 (list_all2 stored_record)
          (take n (chunks batchSize (batch_images reqbody)))
          (upsert_calls (drop (length tr) (snd (handleIndexBatch e reqbody tr))))) \<and>
   (truthy v \<longrightarrow> or_empty v = v) \<and>
   (\<not> truthy v \<longrightarrow> or_empty v = JStr []) \<and>
   (is_string v \<longrightarrow> is_string (or_empty v))"
proof -
  have "is_string v \<longrightarrow> is_string (or_empty v)"
    by (cases v) (simp_all add: or_empty_def)
  then show ?thesis
    using handleIndex_upsert_calls [of _ tr e reqbody]
          handleIndexBatch_upsert_calls [of reqbody tr e]
    by (simp add: or_empty_def)
qed

text \<open>One input through \<^verbatim>\<open>handleIndex\<close>, and the batch of two inputs that differ.\<close>

theorem upserted_metadata_fields_witness:
  "upsert_calls (snd (handleIndex steady_env (JObj [(''id'', JStr ''x''), (''caption'', JStr ''c'')]) [])) =
     [[\<lparr>vr_id = JStr ''x'', vr_values = JArr [JNum 1],
        vr_metadata =
          JObj [(''tags'', JArr [JStr []]), (''alt'', JStr []), (''caption'', JStr ''c''),
                (''project'', JStr []), (''src'', JStr []), (''thumb'', JStr [])]\<rparr>]] \<and>
   stored_record (JObj [(''id'', JStr ''x''), (''caption'', JStr ''c'')])
     \<lparr>vr_id = JStr ''x'', vr_values = JArr [JNum 1],
      vr_metadata =
        JObj [(''tags'', JArr [JStr []]), (''alt'', JStr []), (''caption'', JStr ''c''),
              (''project'', JStr []), (''src'', JStr []), (''thumb'', JStr [])]\<rparr> \<and>
   map (map vr_metadata) (upsert_calls (snd (handleIndexBatch steady_env pair_batch []))) =
     [[JObj [(''tags'', JArr [JStr []]), (''alt'', JStr ''first''), (''caption'', JStr []),
             (''project'', JStr []), (''src'', JStr []), (''thumb'', JStr [])],
       JObj [(''tags'', JArr [JStr ''t'']), (''alt'', JStr []), (''caption'', JStr []),
             (''project'', JStr []), (''src'', JStr []), (''thumb'', JStr [])]]] \<and>
   list_all2 (list_all2 stored_record) (chunks batchSize (batch_images pair_batch))
     (upsert_calls (snd (handleIndexBatch steady_env pair_batch []))) \<and>
   or_empty JUndefined = JStr []"
proof -
  let ?body = "JObj [(''id'', JStr ''x''), (''caption'', JStr ''c'')]"
  let ?rec = "\<lparr>vr_id = JStr ''x'', vr_values = JArr [JNum 1],
      vr_metadata =
        JObj [(''tags'', JArr [JStr []]), (''alt'', JStr []), (''caption'', JStr ''c''),
              (''project'', JStr []), (''src'', JStr []), (''thumb'', JStr [])]\<rparr>"
  note t = upserted_metadata_fields [of "[]" steady_env ?body JUndefined] upserted_metadata_fields [of "[]" steady_env pair_batch JUndefined]
  have one: "upsert_calls (snd (handleIndex steady_env ?body [])) = [[?rec]]"
    by (simp add: handler_defs steady_env_def)
  with t(1) have sr: "stored_record ?body ?rec" by simp
  have ch: "chunks batchSize (batch_images pair_batch) = [batch_images pair_batch]"
    by (simp add: chunks.simps batch_images_def pair_batch_def batchSize_def own_prop_def)
  have two: "map (map vr_metadata) (upsert_calls (snd (handleIndexBatch steady_env pair_batch []))) =
     [[JObj [(''tags'', JArr [JStr []]), (''alt'', JStr ''first''), (''caption'', JStr []),
             (''project'', JStr []), (''src'', JStr []), (''thumb'', JStr [])],
       JObj [(''tags'', JArr [JStr ''t'']), (''alt'', JStr []), (''caption'', JStr []),
             (''project'', JStr []), (''src'', JStr []), (''thumb'', JStr [])]]]"
    by (simp add: pair_batch_def run_defs)
  then have len: "length (upsert_calls (snd (handleIndexBatch steady_env pair_batch []))) = 1"
    by (metis length_map length_Cons list.size(3) One_nat_def)
  from t(2) obtain n where
    n: "list_all2 (list_all2 stored_record) (take n [batch_images pair_batch])
          (upsert_calls (snd (handleIndexBatch steady_env pair_batch [])))"
    unfolding ch by auto
  then have "length (take n [batch_images pair_batch]) = 1"
    using len by (auto dest: list_all2_lengthD)
  then have "take n [batch_images pair_batch] = [batch_images pair_batch]"
    by (cases n) simp_all
  with n have all: "list_all2 (list_all2 stored_record) (chunks batchSize (batch_images pair_batch))
     (upsert_calls (snd (handleIndexBatch steady_env pair_batch [])))"
    by (simp add: ch)
  from t(1) have "or_empty JUndefined = JStr []" by simp
  with one sr two all show ?thesis by blast
qed

end
